theory Spec2Isabelle
  imports Complex_Main "HOL-Library.Word" "HOL-Library.Log_Nat"
begin

section \<open>The dudect measurement engine (src/dudect/dudect.c)\<close>

text \<open>
  The engine times an operation over two labelled populations, keeps a family of online
  Welch t-tests and turns them into a verdict. The embedding follows dudect.c function by
  function. The header dudect.h is not among the sources, so the three constants it
  defines are parameters of the model, and the two structs it declares are read off the
  way dudect.c uses their fields.
\<close>

subsection \<open>Numbers\<close>

text \<open>
  The C type \<open>double\<close> is modelled at two levels. The operations of this subsection are
  exact: real arithmetic plus the three special values of IEEE 754, without rounding. The
  engine is modelled with them. The operations of the next subsection round every result
  to binary64; the update of an accumulator is modelled a second time with them
  (\<open>t_push_d\<close>), and the two levels are compared in the properties. A zero divisor is
  taken as \<open>+0\<close>: in this program the divisors are a sample count (which starts at
  \<open>0.0\<close> and is only incremented), a count minus one at count one, and the result of
  \<open>sqrt\<close>.
\<close>

datatype double = Fin real | PInf | NInf | NaN

fun d_div :: "double \<Rightarrow> double \<Rightarrow> double" where
  "d_div NaN _ = NaN"
| "d_div _ NaN = NaN"
| "d_div (Fin a) (Fin b) =
     (if b = 0 then (if a = 0 then NaN else if 0 < a then PInf else NInf) else Fin (a / b))"
| "d_div (Fin a) PInf = Fin 0"
| "d_div (Fin a) NInf = Fin 0"
| "d_div PInf (Fin b) = (if 0 \<le> b then PInf else NInf)"
| "d_div NInf (Fin b) = (if 0 \<le> b then NInf else PInf)"
| "d_div PInf PInf = NaN"
| "d_div PInf NInf = NaN"
| "d_div NInf PInf = NaN"
| "d_div NInf NInf = NaN"

fun d_add :: "double \<Rightarrow> double \<Rightarrow> double" where
  "d_add NaN _ = NaN"
| "d_add _ NaN = NaN"
| "d_add (Fin a) (Fin b) = Fin (a + b)"
| "d_add PInf NInf = NaN"
| "d_add NInf PInf = NaN"
| "d_add PInf _ = PInf"
| "d_add _ PInf = PInf"
| "d_add NInf _ = NInf"
| "d_add _ NInf = NInf"

fun d_sqrt :: "double \<Rightarrow> double" where
  "d_sqrt (Fin a) = (if a < 0 then NaN else Fin (sqrt a))"
| "d_sqrt PInf = PInf"
| "d_sqrt NInf = NaN"
| "d_sqrt NaN = NaN"

fun fabs :: "double \<Rightarrow> double" where
  "fabs (Fin a) = Fin \<bar>a\<bar>"
| "fabs PInf = PInf"
| "fabs NInf = PInf"
| "fabs NaN = NaN"

text \<open>The comparison \<open><\<close> of C on doubles: false as soon as one side is NaN.\<close>

fun d_less :: "double \<Rightarrow> double \<Rightarrow> bool" where
  "d_less NaN _ = False"
| "d_less _ NaN = False"
| "d_less (Fin a) (Fin b) = (a < b)"
| "d_less (Fin a) PInf = True"
| "d_less NInf (Fin b) = True"
| "d_less NInf PInf = True"
| "d_less _ _ = False"

subsection \<open>Rounding to binary64\<close>

text \<open>
  IEEE 754 binary64 with rounding to nearest, ties to even: what the machine does at each
  operation on doubles that is evaluated in double precision and not fused with another.
  A finite double is \<open>m * 2 ^ e\<close> for integers \<open>\<bar>m\<bar> < 2 ^ 53\<close> and \<open>- 1074 \<le> e \<le> 971\<close>.

  \<open>ilog2 x\<close> is the binary exponent of \<open>x\<close>, the floor of the logarithm of \<open>\<bar>x\<bar>\<close> to the
  base 2, computed on integers.
\<close>

definition ilog2 :: "real \<Rightarrow> int" where
  "ilog2 x = (if 1 \<le> \<bar>x\<bar> then bitlen \<lfloor>\<bar>x\<bar>\<rfloor> - 1 else - bitlen (\<lceil>1 / \<bar>x\<bar>\<rceil> - 1))"

text \<open>The nearest integer, the even one of the two at a tie.\<close>

definition round_even :: "real \<Rightarrow> int" where
  "round_even y =
     (let f = \<lfloor>y\<rfloor>; d = y - of_int f
      in if d < 1 / 2 then f else if 1 / 2 < d then f + 1 else if even f then f else f + 1)"

text \<open>
  The nearest number \<open>m * 2 ^ e\<close> with \<open>\<bar>m\<bar> \<le> 2 ^ 53\<close>, where \<open>e\<close> is 52 below the exponent
  of \<open>x\<close>, and \<open>- 1074\<close> for an \<open>x\<close> below the normal range: the rounding of binary64 as
  long as the exponent is not bounded from above.
\<close>

definition binary64 :: "real \<Rightarrow> real" where
  "binary64 x =
     (let e = max (ilog2 x - 52) (- 1074)
      in of_int (round_even (x / 2 powi e)) * 2 powi e)"

text \<open>
  The rounding of a result: a finite result whose rounding has a magnitude of \<open>2 ^ 1024\<close>
  or more overflows to the infinity of its sign.
\<close>

fun d_round :: "double \<Rightarrow> double" where
  "d_round (Fin x) =
     (if 2 ^ 1024 \<le> \<bar>binary64 x\<bar> then (if 0 < x then PInf else NInf) else Fin (binary64 x))"
| "d_round PInf = PInf"
| "d_round NInf = NInf"
| "d_round NaN = NaN"

text \<open>Negation and multiplication, exact, with the special values.\<close>

fun d_minus :: "double \<Rightarrow> double" where
  "d_minus (Fin a) = Fin (- a)"
| "d_minus PInf = NInf"
| "d_minus NInf = PInf"
| "d_minus NaN = NaN"

fun d_mul :: "double \<Rightarrow> double \<Rightarrow> double" where
  "d_mul NaN _ = NaN"
| "d_mul _ NaN = NaN"
| "d_mul (Fin a) (Fin b) = Fin (a * b)"
| "d_mul (Fin a) PInf = (if a = 0 then NaN else if 0 < a then PInf else NInf)"
| "d_mul (Fin a) NInf = (if a = 0 then NaN else if 0 < a then NInf else PInf)"
| "d_mul PInf (Fin b) = (if b = 0 then NaN else if 0 < b then PInf else NInf)"
| "d_mul NInf (Fin b) = (if b = 0 then NaN else if 0 < b then NInf else PInf)"
| "d_mul PInf PInf = PInf"
| "d_mul PInf NInf = NInf"
| "d_mul NInf PInf = NInf"
| "d_mul NInf NInf = PInf"

text \<open>
  The four operations of the machine: the exact result, rounded. The sign of a zero is
  not modelled: the functions modelled with these operations divide by a count that has
  just been incremented and by a count minus one, and neither is \<open>-0\<close>.
\<close>

definition fl_add :: "double \<Rightarrow> double \<Rightarrow> double" where
  "fl_add a b = d_round (d_add a b)"

definition fl_sub :: "double \<Rightarrow> double \<Rightarrow> double" where
  "fl_sub a b = d_round (d_add a (d_minus b))"

definition fl_mul :: "double \<Rightarrow> double \<Rightarrow> double" where
  "fl_mul a b = d_round (d_mul a b)"

definition fl_div :: "double \<Rightarrow> double \<Rightarrow> double" where
  "fl_div a b = d_round (d_div a b)"

text \<open>
  \<open>int64_t\<close> and \<open>int\<close> values are integers of HOL; the two places where dudect.c does
  arithmetic on them (the difference of two time stamps and the comparator) wrap around
  as the machine does.
\<close>

definition int64 :: "int \<Rightarrow> int" where
  "int64 x = sint (word_of_int x :: 64 word)"

definition int32 :: "int \<Rightarrow> int" where
  "int32 x = sint (word_of_int x :: 32 word)"

subsection \<open>Constants of dudect.h\<close>

text \<open>
  \<open>DUDECT_NUMBER_PERCENTILES\<close> and \<open>DUDECT_ENOUGH_MEASUREMENTS\<close> are macros of the
  missing header: every function that uses one takes the record below.
\<close>

record dudect_h =
  DUDECT_NUMBER_PERCENTILES :: nat
  DUDECT_ENOUGH_MEASUREMENTS :: nat

text \<open>
  Modelled from the spec: the macro \<open>DUDECT_TESTS\<close> of the missing header. The spec counts
  T = P+2 accumulators: the raw one, one for each of the P percentiles, the second-order one.
\<close>

definition DUDECT_TESTS :: "dudect_h \<Rightarrow> nat" where
  "DUDECT_TESTS h = 1 + DUDECT_NUMBER_PERCENTILES h + 1"

datatype dudect_state_t =
  DUDECT_LEAKAGE_FOUND | DUDECT_NO_LEAKAGE_EVIDENCE_YET | DUDECT_NOT_ENOUGHT_MEASUREMENTS

subsection \<open>Online Welch's t-test\<close>

text \<open>
  \<open>ttest_ctx_t\<close>: three arrays of two doubles, each a function of the class. At the exact
  level the three fields hold finite values in every state built from \<open>t_init\<close> by
  \<open>t_push\<close>, so they are reals.
\<close>

record ttest_ctx =
  mean :: "nat \<Rightarrow> real"
  m2 :: "nat \<Rightarrow> real"
  n :: "nat \<Rightarrow> real"

text \<open>
  \<open>t_push\<close> over exact arithmetic. The assertion on the class is the branch \<open>None\<close>. The
  count has been incremented when it divides, so it is at least one in every state built
  from \<open>t_init\<close>.
\<close>

definition t_push :: "ttest_ctx \<Rightarrow> real \<Rightarrow> nat \<Rightarrow> ttest_ctx option" where
  "t_push ctx x cls =
     (if cls = 0 \<or> cls = 1 then
        (let ctx1 = ctx\<lparr>n := (n ctx)(cls := n ctx cls + 1)\<rparr>;
             delta = x - mean ctx1 cls;
             ctx2 = ctx1\<lparr>mean := (mean ctx1)(cls := mean ctx1 cls + delta / n ctx1 cls)\<rparr>;
             ctx3 = ctx2\<lparr>m2 := (m2 ctx2)(cls := m2 ctx2 cls + delta * (x - mean ctx2 cls))\<rparr>
         in Some ctx3)
      else None)"

definition t_compute :: "ttest_ctx \<Rightarrow> double" where
  "t_compute ctx =
     (let var0 = d_div (Fin (m2 ctx 0)) (Fin (n ctx 0 - 1));
          var1 = d_div (Fin (m2 ctx 1)) (Fin (n ctx 1 - 1));
          num = Fin (mean ctx 0 - mean ctx 1);
          den = d_sqrt (d_add (d_div var0 (Fin (n ctx 0))) (d_div var1 (Fin (n ctx 1))));
          t_value = d_div num den
      in t_value)"

definition t_init :: ttest_ctx where
  "t_init = \<lparr>mean = (\<lambda>cls. 0), m2 = (\<lambda>cls. 0), n = (\<lambda>cls. 0)\<rparr>"

text \<open>
  \<open>ttest_ctx_t\<close> with its fields as doubles, and \<open>t_push\<close> with the arithmetic of the
  machine: \<open>ctx->n[class]++\<close> adds \<open>1.0\<close>, and each of the seven operations is rounded.
\<close>

record ttest_ctx_d =
  mean_d :: "nat \<Rightarrow> double"
  m2_d :: "nat \<Rightarrow> double"
  n_d :: "nat \<Rightarrow> double"

definition t_push_d :: "ttest_ctx_d \<Rightarrow> double \<Rightarrow> nat \<Rightarrow> ttest_ctx_d option" where
  "t_push_d ctx x cls =
     (if cls = 0 \<or> cls = 1 then
        (let ctx1 = ctx\<lparr>n_d := (n_d ctx)(cls := fl_add (n_d ctx cls) (Fin 1))\<rparr>;
             delta = fl_sub x (mean_d ctx1 cls);
             ctx2 = ctx1\<lparr>mean_d :=
                      (mean_d ctx1)(cls := fl_add (mean_d ctx1 cls) (fl_div delta (n_d ctx1 cls)))\<rparr>;
             ctx3 = ctx2\<lparr>m2_d :=
                      (m2_d ctx2)(cls := fl_add (m2_d ctx2 cls)
                                           (fl_mul delta (fl_sub x (mean_d ctx2 cls))))\<rparr>
         in Some ctx3)
      else None)"

definition t_init_d :: ttest_ctx_d where
  "t_init_d = \<lparr>mean_d = (\<lambda>cls. Fin 0), m2_d = (\<lambda>cls. Fin 0), n_d = (\<lambda>cls. Fin 0)\<rparr>"

text \<open>\<open>var[cls]\<close> as \<open>t_compute\<close> forms it first: \<open>ctx->m2[cls] / (ctx->n[cls] - 1)\<close>.\<close>

definition variance_d :: "ttest_ctx_d \<Rightarrow> nat \<Rightarrow> double" where
  "variance_d ctx cls = fl_div (m2_d ctx cls) (fl_sub (n_d ctx cls) (Fin 1))"

subsection \<open>Percentiles\<close>

definition cmp :: "int \<Rightarrow> int \<Rightarrow> int" where
  "cmp a b = int32 (int64 (a - b))"

text \<open>
  \<open>qsort\<close> belongs to the C library. It is modelled as a sort by insertion that looks at
  the elements through the comparator only: \<open>x\<close> goes before the first \<open>y\<close> with
  \<open>cmp x y \<le> 0\<close>.
\<close>

fun qsort_insert :: "(int \<Rightarrow> int \<Rightarrow> int) \<Rightarrow> int \<Rightarrow> int list \<Rightarrow> int list" where
  "qsort_insert c x [] = [x]"
| "qsort_insert c x (y # ys) = (if c x y \<le> 0 then x # y # ys else y # qsort_insert c x ys)"

definition qsort :: "int list \<Rightarrow> nat \<Rightarrow> (int \<Rightarrow> int \<Rightarrow> int) \<Rightarrow> int list" where
  "qsort a sz c = foldr (qsort_insert c) (take sz a) [] @ drop sz a"

text \<open>
  \<open>percentile\<close> sorts the array in place and reads one position: the result is the
  sorted array and the value read, or \<open>None\<close> when the assertion fails. The only caller
  passes a \<open>which\<close> between 0 and 1, where the conversion to \<open>size_t\<close> is the floor.
\<close>

definition percentile :: "int list \<Rightarrow> real \<Rightarrow> nat \<Rightarrow> (int list \<times> int) option" where
  "percentile a which sz =
     (let a' = qsort a sz cmp;
          array_position = nat \<lfloor>real sz * which\<rfloor>
      in if array_position < sz then Some (a', a' ! array_position) else None)"

subsection \<open>The context\<close>

text \<open>
  \<open>dudect_config_t\<close> without its two callbacks and their private handle, which are the
  environment of the model: \<open>prepare\<close> is the labelling it writes, \<open>compute\<close> is seen
  through the readings of the cycle counter only.
\<close>

record dudect_config =
  chunk_size :: nat
  number_measurements :: nat

record dudect_ctx =
  ticks :: "int list"
  exec_times :: "int list"
  classes :: "nat list"
  ttest_ctxs :: "ttest_ctx list"
  percentiles :: "int list"
  config :: dudect_config

fun prepare_percentiles_loop :: "dudect_h \<Rightarrow> nat list \<Rightarrow> dudect_ctx \<Rightarrow> dudect_ctx option" where
  "prepare_percentiles_loop h [] ctx = Some ctx"
| "prepare_percentiles_loop h (i # rest) ctx =
     (case percentile (exec_times ctx)
             (1 - (1 / 2) powr (10 * real (i + 1) / real (DUDECT_NUMBER_PERCENTILES h)))
             (number_measurements (config ctx)) of
        None \<Rightarrow> None
      | Some (a', v) \<Rightarrow>
          prepare_percentiles_loop h rest
            (ctx\<lparr>exec_times := a', percentiles := (percentiles ctx)[i := v]\<rparr>))"

definition prepare_percentiles :: "dudect_h \<Rightarrow> dudect_ctx \<Rightarrow> dudect_ctx option" where
  "prepare_percentiles h ctx =
     prepare_percentiles_loop h [0..<DUDECT_NUMBER_PERCENTILES h] ctx"

subsection \<open>Measuring\<close>

text \<open>
  \<open>cpucycles\<close> reads the hardware counter: \<open>cyc i\<close> is the reading taken before trial
  \<open>i\<close> of the batch. The bound \<open>number_measurements - 1\<close> of the second loop is computed in
  \<open>size_t\<close>: with no measurements it wraps around and the loop leaves the buffers, which
  is the result \<open>None\<close>.
\<close>

fun measure_ticks :: "(nat \<Rightarrow> int) \<Rightarrow> nat list \<Rightarrow> dudect_ctx \<Rightarrow> dudect_ctx" where
  "measure_ticks cyc [] ctx = ctx"
| "measure_ticks cyc (i # rest) ctx = measure_ticks cyc rest (ctx\<lparr>ticks := (ticks ctx)[i := cyc i]\<rparr>)"

fun measure_times :: "nat list \<Rightarrow> dudect_ctx \<Rightarrow> dudect_ctx" where
  "measure_times [] ctx = ctx"
| "measure_times (i # rest) ctx =
     measure_times rest
       (ctx\<lparr>exec_times := (exec_times ctx)[i := int64 (ticks ctx ! (i + 1) - ticks ctx ! i)]\<rparr>)"

definition measure :: "(nat \<Rightarrow> int) \<Rightarrow> dudect_ctx \<Rightarrow> dudect_ctx option" where
  "measure cyc ctx =
     (let N = number_measurements (config ctx)
      in if N = 0 then None
         else Some (measure_times [0..<N - 1] (measure_ticks cyc [0..<N] ctx)))"

subsection \<open>Updating the statistics\<close>

fun crop_loop :: "int \<Rightarrow> nat \<Rightarrow> nat list \<Rightarrow> dudect_ctx \<Rightarrow> dudect_ctx option" where
  "crop_loop difference cls [] ctx = Some ctx"
| "crop_loop difference cls (crop_index # rest) ctx =
     (if difference < percentiles ctx ! crop_index then
        (case t_push (ttest_ctxs ctx ! (crop_index + 1)) (real_of_int difference) cls of
           None \<Rightarrow> None
         | Some t \<Rightarrow>
             crop_loop difference cls rest
               (ctx\<lparr>ttest_ctxs := (ttest_ctxs ctx)[crop_index + 1 := t]\<rparr>))
      else crop_loop difference cls rest ctx)"

text \<open>The body of the loop of \<open>update_statistics\<close>, at index \<open>i\<close>.\<close>

definition update_one :: "dudect_h \<Rightarrow> dudect_ctx \<Rightarrow> nat \<Rightarrow> dudect_ctx option" where
  "update_one h ctx i =
     (let difference = exec_times ctx ! i
      in if difference < 0 then Some ctx
         else
           (case t_push (ttest_ctxs ctx ! 0) (real_of_int difference) (classes ctx ! i) of
              None \<Rightarrow> None
            | Some t0 \<Rightarrow>
                (case crop_loop difference (classes ctx ! i) [0..<DUDECT_NUMBER_PERCENTILES h]
                        (ctx\<lparr>ttest_ctxs := (ttest_ctxs ctx)[0 := t0]\<rparr>) of
                   None \<Rightarrow> None
                 | Some ctx1 \<Rightarrow>
                     (if n (ttest_ctxs ctx1 ! 0) 0 > 10000 then
                        (let centered =
                               real_of_int difference - mean (ttest_ctxs ctx1 ! 0) (classes ctx1 ! i)
                         in case t_push (ttest_ctxs ctx1 ! (1 + DUDECT_NUMBER_PERCENTILES h))
                                   (centered * centered) (classes ctx1 ! i) of
                              None \<Rightarrow> None
                            | Some t2 \<Rightarrow>
                                Some (ctx1\<lparr>ttest_ctxs :=
                                        (ttest_ctxs ctx1)[1 + DUDECT_NUMBER_PERCENTILES h := t2]\<rparr>))
                      else Some ctx1))))"

fun update_loop :: "dudect_h \<Rightarrow> nat list \<Rightarrow> dudect_ctx \<Rightarrow> dudect_ctx option" where
  "update_loop h [] ctx = Some ctx"
| "update_loop h (i # rest) ctx =
     (case update_one h ctx i of None \<Rightarrow> None | Some ctx' \<Rightarrow> update_loop h rest ctx')"

definition update_statistics :: "dudect_h \<Rightarrow> dudect_ctx \<Rightarrow> dudect_ctx option" where
  "update_statistics h ctx =
     (let N = number_measurements (config ctx)
      in if N = 0 then None else update_loop h [10..<N - 1] ctx)"

subsection \<open>The verdict\<close>

fun max_test_loop :: "dudect_h \<Rightarrow> dudect_ctx \<Rightarrow> nat list \<Rightarrow> nat \<times> double \<Rightarrow> nat \<times> double" where
  "max_test_loop h ctx [] (ret, mx) = (ret, mx)"
| "max_test_loop h ctx (i # rest) (ret, mx) =
     (if n (ttest_ctxs ctx ! i) 0 > real (DUDECT_ENOUGH_MEASUREMENTS h) then
        (let x = fabs (t_compute (ttest_ctxs ctx ! i))
         in if d_less mx x then max_test_loop h ctx rest (i, x)
            else max_test_loop h ctx rest (ret, mx))
      else max_test_loop h ctx rest (ret, mx))"

definition max_test_index :: "dudect_h \<Rightarrow> dudect_ctx \<Rightarrow> nat" where
  "max_test_index h ctx = fst (max_test_loop h ctx [0..<DUDECT_TESTS h] (0, Fin 0))"

definition max_test :: "dudect_h \<Rightarrow> dudect_ctx \<Rightarrow> ttest_ctx" where
  "max_test h ctx = ttest_ctxs ctx ! max_test_index h ctx"

text \<open>\<open>report\<close> without its printing; \<open>DUDECT_TRACE\<close> is 0.\<close>

definition report :: "dudect_h \<Rightarrow> dudect_ctx \<Rightarrow> dudect_state_t" where
  "report h ctx =
     (let t = max_test h ctx;
          max_t = fabs (t_compute t);
          number_traces_max_t = n t 0 + n t 1
      in if number_traces_max_t < real (DUDECT_ENOUGH_MEASUREMENTS h)
         then DUDECT_NOT_ENOUGHT_MEASUREMENTS
         else if d_less (Fin 500) max_t then DUDECT_LEAKAGE_FOUND
         else if d_less (Fin 10) max_t then DUDECT_LEAKAGE_FOUND
         else DUDECT_NO_LEAKAGE_EVIDENCE_YET)"

text \<open>
  The count that \<open>report\<close> prints when it returns for lack of measurements:
  \<open>DUDECT_ENOUGH_MEASUREMENTS - number_traces_max_t\<close>.
\<close>

definition still_to_go :: "dudect_h \<Rightarrow> dudect_ctx \<Rightarrow> real" where
  "still_to_go h ctx =
     (let t = max_test h ctx;
          number_traces_max_t = n t 0 + n t 1
      in real (DUDECT_ENOUGH_MEASUREMENTS h) - number_traces_max_t)"

subsection \<open>One step of the engine\<close>

text \<open>
  \<open>dudect_main\<close>. The callback \<open>prepare\<close> fills the labels: \<open>lab i\<close> is the label it gives
  trial \<open>i\<close>. The test for the first call reads \<open>percentiles[DUDECT_NUMBER_PERCENTILES - 1]\<close>,
  which is outside the array when there is no percentile.
\<close>

definition dudect_main ::
  "dudect_h \<Rightarrow> dudect_ctx \<Rightarrow> (nat \<Rightarrow> nat) \<Rightarrow> (nat \<Rightarrow> int) \<Rightarrow> (dudect_ctx \<times> dudect_state_t) option" where
  "dudect_main h ctx lab cyc =
     (case measure cyc (ctx\<lparr>classes := map lab [0..<number_measurements (config ctx)]\<rparr>) of
        None \<Rightarrow> None
      | Some ctx1 \<Rightarrow>
          if DUDECT_NUMBER_PERCENTILES h = 0 then None
          else
            (let first_time = (percentiles ctx1 ! (DUDECT_NUMBER_PERCENTILES h - 1) = 0)
             in if first_time then
                  (case prepare_percentiles h ctx1 of
                     None \<Rightarrow> None
                   | Some ctx2 \<Rightarrow> Some (ctx2, DUDECT_NOT_ENOUGHT_MEASUREMENTS))
                else
                  (case update_statistics h ctx1 of
                     None \<Rightarrow> None
                   | Some ctx2 \<Rightarrow> Some (ctx2, report h ctx2))))"

text \<open>\<open>dudect_init\<close>, every allocation succeeding: \<open>calloc\<close> gives zeros.\<close>

definition dudect_init :: "dudect_h \<Rightarrow> dudect_config \<Rightarrow> dudect_ctx" where
  "dudect_init h conf =
     \<lparr>ticks = replicate (number_measurements conf) 0,
      exec_times = replicate (number_measurements conf) 0,
      classes = replicate (number_measurements conf) 0,
      ttest_ctxs = replicate (DUDECT_TESTS h) t_init,
      percentiles = replicate (DUDECT_NUMBER_PERCENTILES h) 0,
      config = \<lparr>chunk_size = chunk_size conf, number_measurements = number_measurements conf\<rparr>\<rparr>"

text \<open>The buffers have the sizes \<open>dudect_init\<close> allocates.\<close>

definition allocated :: "dudect_h \<Rightarrow> dudect_ctx \<Rightarrow> bool" where
  "allocated h ctx \<longleftrightarrow>
     length (ticks ctx) = number_measurements (config ctx) \<and>
     length (exec_times ctx) = number_measurements (config ctx) \<and>
     length (classes ctx) = number_measurements (config ctx) \<and>
     length (ttest_ctxs ctx) = DUDECT_TESTS h \<and>
     length (percentiles ctx) = DUDECT_NUMBER_PERCENTILES h"

subsection \<open>The statistics of a batch, in the words of the specification\<close>

text \<open>A sequence of pushes into one accumulator, each a timing with its class.\<close>

fun t_push_all :: "ttest_ctx \<Rightarrow> (real \<times> nat) list \<Rightarrow> ttest_ctx option" where
  "t_push_all t [] = Some t"
| "t_push_all t ((x, cls) # ps) =
     (case t_push t x cls of None \<Rightarrow> None | Some t' \<Rightarrow> t_push_all t' ps)"

text \<open>A delta of the batch as the double that \<open>update_statistics\<close> pushes.\<close>

definition as_double :: "int \<times> nat \<Rightarrow> real \<times> nat" where
  "as_double p = (real_of_int (fst p), snd p)"

text \<open>
  The deltas of the batch that the update retains, each with its label: those at the
  indices \<open>js\<close> that are not negative. For a whole batch \<open>js\<close> is 10, ..., N - 2.
\<close>

definition retained_on :: "dudect_ctx \<Rightarrow> nat list \<Rightarrow> (int \<times> nat) list" where
  "retained_on ctx js =
     filter (\<lambda>(d, cls). 0 \<le> d) (map (\<lambda>i. (exec_times ctx ! i, classes ctx ! i)) js)"

definition retained :: "dudect_ctx \<Rightarrow> (int \<times> nat) list" where
  "retained ctx = retained_on ctx [10..<number_measurements (config ctx) - 1]"

text \<open>
  The two-pass sample statistics of the values pushed with one class: the mean, then the
  sum of the squared deviations from it over the count minus one.
\<close>

definition class_values :: "(real \<times> nat) list \<Rightarrow> nat \<Rightarrow> real list" where
  "class_values ps cls = map fst (filter (\<lambda>(x, c). c = cls) ps)"

definition two_pass_mean :: "real list \<Rightarrow> real" where
  "two_pass_mean xs = sum_list xs / real (length xs)"

definition two_pass_variance :: "real list \<Rightarrow> real" where
  "two_pass_variance xs =
     (\<Sum>x\<leftarrow>xs. (x - two_pass_mean xs) * (x - two_pass_mean xs)) / (real (length xs) - 1)"

text \<open>
  What Welford's update maintains for one class, \<open>xs\<close> being the values pushed so far:
  the count, the mean as sum over count, the second moment as the sum of the squares
  minus the squared sum over the count. Before the first push every field is 0.
\<close>

definition welford_inv :: "ttest_ctx \<Rightarrow> nat \<Rightarrow> real list \<Rightarrow> bool" where
  "welford_inv t cls xs \<longleftrightarrow>
     n t cls = real (length xs) \<and>
     mean t cls = (if xs = [] then 0 else sum_list xs / real (length xs)) \<and>
     m2 t cls = (if xs = [] then 0
                 else (\<Sum>x\<leftarrow>xs. x * x) - sum_list xs * sum_list xs / real (length xs))"

text \<open>
  An accumulator as pushes leave it: for each class its fields are those of Welford's
  update after some sequence of values.
\<close>

definition pushed :: "ttest_ctx \<Rightarrow> bool" where
  "pushed t \<longleftrightarrow> (\<forall>cls. \<exists>xs. welford_inv t cls xs)"

text \<open>A sequence of pushes with the arithmetic of the machine.\<close>

fun t_push_all_d :: "ttest_ctx_d \<Rightarrow> (double \<times> nat) list \<Rightarrow> ttest_ctx_d option" where
  "t_push_all_d t [] = Some t"
| "t_push_all_d t ((x, cls) # ps) =
     (case t_push_d t x cls of None \<Rightarrow> None | Some t' \<Rightarrow> t_push_all_d t' ps)"

text \<open>
  The accumulator of the machine with the count \<open>k\<close> for class 0 and every other field 0:
  what \<open>k\<close> pushes of \<open>0.0\<close> with class 0 leave while the count is exact.
\<close>

definition zeros_d :: "nat \<Rightarrow> ttest_ctx_d" where
  "zeros_d k = \<lparr>mean_d = (\<lambda>c. Fin 0), m2_d = (\<lambda>c. Fin 0),
                 n_d = (\<lambda>c. if c = 0 then Fin (real k) else Fin 0)\<rparr>"






subsection \<open>The states of the engine\<close>

text \<open>
  The contexts a driver can hold: the one \<open>dudect_init\<close> builds, and every context a
  call of \<open>dudect_main\<close> that returns leaves behind.
\<close>

inductive reachable :: "dudect_h \<Rightarrow> dudect_ctx \<Rightarrow> bool" for h :: dudect_h where
  init: "reachable h (dudect_init h conf)"
| step: "reachable h ctx \<Longrightarrow> dudect_main h ctx lab cyc = Some (ctx', v) \<Longrightarrow> reachable h ctx'"

text \<open>
  No count is negative, and no accumulator has seen more values of a class than the raw
  accumulator, which is pushed first for every retained delta.
\<close>

definition counts_ok :: "dudect_h \<Rightarrow> dudect_ctx \<Rightarrow> bool" where
  "counts_ok h ctx \<longleftrightarrow>
     (\<forall>i < DUDECT_TESTS h. \<forall>cls.
        0 \<le> n (ttest_ctxs ctx ! i) cls \<and>
        n (ttest_ctxs ctx ! i) cls \<le> n (ttest_ctxs ctx ! 0) cls)"

text \<open>
  Accumulator \<open>i\<close> meets the gate of \<open>max_test\<close>: its count for class 0 exceeds
  \<open>DUDECT_ENOUGH_MEASUREMENTS\<close>.
\<close>

definition meets_gate :: "dudect_h \<Rightarrow> dudect_ctx \<Rightarrow> nat \<Rightarrow> bool" where
  "meets_gate h ctx i \<longleftrightarrow>
     n (ttest_ctxs ctx ! i) 0 > real (DUDECT_ENOUGH_MEASUREMENTS h)"

text \<open>The absolute t statistic of accumulator \<open>i\<close>, as \<open>max_test\<close> and \<open>report\<close> form it.\<close>

definition abs_t :: "dudect_ctx \<Rightarrow> nat \<Rightarrow> double" where
  "abs_t ctx i = fabs (t_compute (ttest_ctxs ctx ! i))"

subsection \<open>Small runs\<close>

text \<open>
  A header with one percentile and a gate of one measurement, a configuration of fifteen
  measurements, and two batches: a counter that advances by three cycles at every trial,
  under labels all 0, then a counter whose four retained deltas are 1, 3, 100 and 100, the
  first two labelled 0 and the last two labelled 1.
\<close>

definition h_small :: dudect_h where
  "h_small = \<lparr>DUDECT_NUMBER_PERCENTILES = 1, DUDECT_ENOUGH_MEASUREMENTS = 1\<rparr>"

definition conf_small :: dudect_config where
  "conf_small = \<lparr>chunk_size = 16, number_measurements = 15\<rparr>"

definition cyc_even :: "nat \<Rightarrow> int" where
  "cyc_even i = 3 * int i"

text \<open>A counter too coarse to advance within the batch.\<close>

definition cyc_flat :: "nat \<Rightarrow> int" where
  "cyc_flat i = 7"

definition lab_zero :: "nat \<Rightarrow> nat" where
  "lab_zero i = 0"

definition cyc_leak :: "nat \<Rightarrow> int" where
  "cyc_leak i = (if i \<le> 10 then 0 else if i = 11 then 1 else if i = 12 then 4
                 else if i = 13 then 104 else 204)"

definition lab_split :: "nat \<Rightarrow> nat" where
  "lab_split i = (if i < 12 then 0 else 1)"

text \<open>
  A driver that calls \<open>dudect_main\<close> once for each batch it is given and collects the
  verdicts; the counts of one class over the accumulators of a context.
\<close>

fun run ::
  "dudect_h \<Rightarrow> dudect_ctx \<Rightarrow> ((nat \<Rightarrow> nat) \<times> (nat \<Rightarrow> int)) list \<Rightarrow>
     (dudect_ctx \<times> dudect_state_t list) option" where
  "run h ctx [] = Some (ctx, [])"
| "run h ctx ((lab, cyc) # bs) =
     (case dudect_main h ctx lab cyc of
        None \<Rightarrow> None
      | Some (ctx', v) \<Rightarrow>
          (case run h ctx' bs of None \<Rightarrow> None | Some (ctx'', vs) \<Rightarrow> Some (ctx'', v # vs)))"

definition counts :: "dudect_ctx \<Rightarrow> nat \<Rightarrow> real list" where
  "counts ctx cls = map (\<lambda>t. n t cls) (ttest_ctxs ctx)"

text \<open>The same header with a gate of two, three, four and five measurements.\<close>

definition h_two :: dudect_h where
  "h_two = \<lparr>DUDECT_NUMBER_PERCENTILES = 1, DUDECT_ENOUGH_MEASUREMENTS = 2\<rparr>"

definition h_five :: dudect_h where
  "h_five = \<lparr>DUDECT_NUMBER_PERCENTILES = 1, DUDECT_ENOUGH_MEASUREMENTS = 5\<rparr>"

definition h_four :: dudect_h where
  "h_four = \<lparr>DUDECT_NUMBER_PERCENTILES = 1, DUDECT_ENOUGH_MEASUREMENTS = 4\<rparr>"

definition h_three :: dudect_h where
  "h_three = \<lparr>DUDECT_NUMBER_PERCENTILES = 1, DUDECT_ENOUGH_MEASUREMENTS = 3\<rparr>"

text \<open>
  A header with one percentile and the gate at 10000; a context for the header with a
  hundred percentiles, holding a batch of 10012 measurements whose deltas are all one cycle
  and whose labels are all 1, on fresh accumulators; and a context of twelve measurements,
  one retained delta of seven cycles labelled 0, whose raw accumulator has already seen
  \<open>k\<close> values 0 of class 0.
\<close>

definition h_one :: dudect_h where
  "h_one = \<lparr>DUDECT_NUMBER_PERCENTILES = 1, DUDECT_ENOUGH_MEASUREMENTS = 10000\<rparr>"

definition ctx_ones :: dudect_ctx where
  "ctx_ones =
     \<lparr>ticks = replicate 10012 0, exec_times = replicate 10012 1, classes = replicate 10012 1,
      ttest_ctxs = replicate 102 t_init, percentiles = replicate 100 3,
      config = \<lparr>chunk_size = 16, number_measurements = 10012\<rparr>\<rparr>"

definition ctx_near :: "real \<Rightarrow> dudect_ctx" where
  "ctx_near k =
     \<lparr>ticks = replicate 12 0, exec_times = [0, 0, 0, 0, 0, 0, 0, 0, 0, 0, 7, 0],
      classes = replicate 12 0,
      ttest_ctxs = [t_init\<lparr>n := (\<lambda>cls. if cls = 0 then k else 0)\<rparr>, t_init, t_init],
      percentiles = [3],
      config = \<lparr>chunk_size = 16, number_measurements = 12\<rparr>\<rparr>"

text \<open>
  A header with a hundred percentiles, a configuration of four measurements, and a counter
  that stalls for a little over \<open>2 ^ 32\<close> cycles during the second trial: the three
  deltas are 5, 4294967302 and 7.
\<close>

definition h_hundred :: dudect_h where
  "h_hundred = \<lparr>DUDECT_NUMBER_PERCENTILES = 100, DUDECT_ENOUGH_MEASUREMENTS = 10000\<rparr>"

definition conf_four :: dudect_config where
  "conf_four = \<lparr>chunk_size = 16, number_measurements = 4\<rparr>"

definition cyc_stall :: "nat \<Rightarrow> int" where
  "cyc_stall i = (if i = 0 then 0 else if i = 1 then 5 else if i = 2 then 4294967307
                  else 4294967314)"

text \<open>
  A long batch: 10012 measurements, a counter that advances by one cycle at every trial,
  and a counter that advances by one cycle up to trial \<open>s\<close> and by two cycles from there
  on, under labels that are 0 below \<open>s\<close> and 1 from \<open>s\<close> on.
\<close>

definition conf_long :: dudect_config where
  "conf_long = \<lparr>chunk_size = 16, number_measurements = 10012\<rparr>"

definition cyc_unit :: "nat \<Rightarrow> int" where
  "cyc_unit i = int i"

definition cyc_split :: "nat \<Rightarrow> nat \<Rightarrow> int" where
  "cyc_split s i = (if i \<le> s then int i else 2 * int i - int s)"

definition lab_split_at :: "nat \<Rightarrow> nat \<Rightarrow> nat" where
  "lab_split_at s i = (if i < s then 0 else 1)"


section \<open>Properties\<close>

subsection \<open>What each loop leaves alone\<close>

lemma measure_ticks_frame:
  "exec_times (measure_ticks cyc js ctx) = exec_times ctx \<and>
   classes (measure_ticks cyc js ctx) = classes ctx \<and>
   ttest_ctxs (measure_ticks cyc js ctx) = ttest_ctxs ctx \<and>
   percentiles (measure_ticks cyc js ctx) = percentiles ctx \<and>
   config (measure_ticks cyc js ctx) = config ctx \<and>
   length (ticks (measure_ticks cyc js ctx)) = length (ticks ctx)"
  by (induction js arbitrary: ctx) auto

lemma measure_times_frame:
  "ticks (measure_times js ctx) = ticks ctx \<and>
   classes (measure_times js ctx) = classes ctx \<and>
   ttest_ctxs (measure_times js ctx) = ttest_ctxs ctx \<and>
   percentiles (measure_times js ctx) = percentiles ctx \<and>
   config (measure_times js ctx) = config ctx \<and>
   length (exec_times (measure_times js ctx)) = length (exec_times ctx)"
  by (induction js arbitrary: ctx) auto

lemma measure_frame:
  assumes "measure cyc ctx = Some ctx'"
  shows "ttest_ctxs ctx' = ttest_ctxs ctx \<and> percentiles ctx' = percentiles ctx \<and>
    classes ctx' = classes ctx \<and> config ctx' = config ctx \<and>
    length (exec_times ctx') = length (exec_times ctx) \<and>
    length (ticks ctx') = length (ticks ctx)"
  using assms
  by (auto simp: measure_def Let_def measure_ticks_frame measure_times_frame split: if_splits)

lemma measure_Some:
  "0 < number_measurements (config ctx) \<Longrightarrow> \<exists>ctx'. measure cyc ctx = Some ctx'"
  by (simp add: measure_def Let_def)

subsection \<open>Calibration\<close>

lemma position_lt:
  assumes "1 \<le> S" "which < 1"
  shows "nat \<lfloor>real S * which\<rfloor> < S"
proof -
  have "real S * which < real S" using assms by simp
  then have "\<lfloor>real S * which\<rfloor> < int S" by linarith
  then show ?thesis using assms by linarith
qed

lemma percentile_Some:
  assumes "1 \<le> S" "which < 1"
  shows "percentile a which S = Some (qsort a S cmp, qsort a S cmp ! nat \<lfloor>real S * which\<rfloor>)"
  using position_lt[OF assms] by (simp add: percentile_def Let_def)

lemma length_qsort_insert: "length (qsort_insert c x ys) = Suc (length ys)"
  by (induction ys) auto

lemma length_foldr_qsort_insert: "length (foldr (qsort_insert c) xs []) = length xs"
  by (induction xs) (auto simp: length_qsort_insert)

lemma length_qsort: "length (qsort a sz c) = length a"
  by (simp add: qsort_def length_foldr_qsort_insert)

lemma prepare_percentiles_loop_Some:
  assumes "1 \<le> number_measurements (config ctx)"
  shows "\<exists>ctx'. prepare_percentiles_loop h js ctx = Some ctx' \<and>
           ticks ctx' = ticks ctx \<and> classes ctx' = classes ctx \<and>
           ttest_ctxs ctx' = ttest_ctxs ctx \<and> config ctx' = config ctx \<and>
           length (exec_times ctx') = length (exec_times ctx) \<and>
           length (percentiles ctx') = length (percentiles ctx)"
  using assms
proof (induction js arbitrary: ctx)
  case Nil
  then show ?case by simp
next
  case (Cons i js)
  let ?N = "number_measurements (config ctx)"
  let ?q = "1 - (1 / 2) powr (10 * real (i + 1) / real (DUDECT_NUMBER_PERCENTILES h))"
  let ?a = "qsort (exec_times ctx) ?N cmp"
  let ?c = "ctx\<lparr>exec_times := ?a, percentiles := (percentiles ctx)[i := ?a ! nat \<lfloor>real ?N * ?q\<rfloor>]\<rparr>"
  have p: "percentile (exec_times ctx) ?q ?N = Some (?a, ?a ! nat \<lfloor>real ?N * ?q\<rfloor>)"
    using Cons.prems by (intro percentile_Some) simp_all
  have "1 \<le> number_measurements (config ?c)" using Cons.prems by simp
  from Cons.IH[OF this] obtain ctx' where
    "prepare_percentiles_loop h js ?c = Some ctx'"
    "ticks ctx' = ticks ?c" "classes ctx' = classes ?c" "ttest_ctxs ctx' = ttest_ctxs ?c"
    "config ctx' = config ?c" "length (exec_times ctx') = length (exec_times ?c)"
    "length (percentiles ctx') = length (percentiles ?c)"
    by blast
  then show ?case using p by (simp add: length_qsort)
qed

text \<open>
  C10. With at least one measurement, every quantile of the schedule
  \<open>1 - 0.5 ^ (10 (i + 1) / P)\<close> is below 1, so the position \<open>\<lfloor>S q\<rfloor>\<close> that
  \<open>percentile\<close> reads is below the size \<open>S\<close> of the buffer: its assertion holds, the
  read is inside \<open>exec_times\<close>, and \<open>prepare_percentiles\<close> runs to its end.
\<close>

theorem percentile_position_in_bounds:
  assumes "1 \<le> number_measurements (config ctx)"
    and "length (exec_times ctx) = number_measurements (config ctx)"
    and "i < DUDECT_NUMBER_PERCENTILES h"
  shows "(let S = number_measurements (config ctx);
              q = 1 - (1 / 2) powr (10 * real (i + 1) / real (DUDECT_NUMBER_PERCENTILES h))
          in q < 1 \<and> nat \<lfloor>real S * q\<rfloor> < S \<and>
             nat \<lfloor>real S * q\<rfloor> < length (exec_times ctx) \<and>
             percentile (exec_times ctx) q S
               = Some (qsort (exec_times ctx) S cmp,
                       qsort (exec_times ctx) S cmp ! nat \<lfloor>real S * q\<rfloor>)) \<and>
         (\<exists>ctx'. prepare_percentiles h ctx = Some ctx')"
proof -
  let ?S = "number_measurements (config ctx)"
  let ?q = "1 - (1 / 2) powr (10 * real (i + 1) / real (DUDECT_NUMBER_PERCENTILES h))"
  have q: "?q < 1" by simp
  have pos: "nat \<lfloor>real ?S * ?q\<rfloor> < ?S" using assms(1) q by (rule position_lt)
  have per: "percentile (exec_times ctx) ?q ?S
      = Some (qsort (exec_times ctx) ?S cmp, qsort (exec_times ctx) ?S cmp ! nat \<lfloor>real ?S * ?q\<rfloor>)"
    using assms(1) q by (rule percentile_Some)
  have "\<exists>ctx'. prepare_percentiles h ctx = Some ctx'"
    using prepare_percentiles_loop_Some[OF assms(1)] unfolding prepare_percentiles_def by blast
  with q pos per assms(2) show ?thesis unfolding Let_def by simp
qed

theorem percentile_position_in_bounds_witness:
  "1 \<le> number_measurements (config (dudect_init \<lparr>DUDECT_NUMBER_PERCENTILES = 1, DUDECT_ENOUGH_MEASUREMENTS = 10000\<rparr>
                                         \<lparr>chunk_size = 16, number_measurements = 4\<rparr>)) \<and>
   (0::nat) < DUDECT_NUMBER_PERCENTILES \<lparr>DUDECT_NUMBER_PERCENTILES = 1, DUDECT_ENOUGH_MEASUREMENTS = 10000\<rparr> \<and>
   nat \<lfloor>real 4 * (1 - (1 / 2) powr (10 * real (0 + 1) / real 1))\<rfloor> < (4::nat) \<and>
   percentile (replicate 4 0) (1 - (1 / 2) powr (10 * real (0 + 1) / real 1)) 4 \<noteq> None"
  using percentile_position_in_bounds
          [of "dudect_init \<lparr>DUDECT_NUMBER_PERCENTILES = 1, DUDECT_ENOUGH_MEASUREMENTS = 10000\<rparr>
                           \<lparr>chunk_size = 16, number_measurements = 4\<rparr>"
              0 "\<lparr>DUDECT_NUMBER_PERCENTILES = 1, DUDECT_ENOUGH_MEASUREMENTS = 10000\<rparr>"]
  by (simp add: dudect_init_def Let_def)

subsection \<open>Updating the statistics\<close>

lemma t_push_Some: "cls \<le> 1 \<Longrightarrow> \<exists>t'. t_push t x cls = Some t'"
  by (auto simp: t_push_def Let_def)

lemma t_push_valid: "t_push t x cls = Some t' \<Longrightarrow> cls \<le> 1"
  by (auto simp: t_push_def Let_def split: if_splits)

lemma t_push_n: "t_push t x cls = Some t' \<Longrightarrow> n t' = (n t)(cls := n t cls + 1)"
  by (auto simp: t_push_def Let_def split: if_splits)

lemma crop_loop_char:
  assumes "cls \<le> 1" and "distinct js" and "\<forall>j\<in>set js. j + 1 < length (ttest_ctxs ctx)"
  shows "\<exists>ctx'. crop_loop d cls js ctx = Some ctx' \<and>
           ticks ctx' = ticks ctx \<and> exec_times ctx' = exec_times ctx \<and>
           classes ctx' = classes ctx \<and> percentiles ctx' = percentiles ctx \<and>
           config ctx' = config ctx \<and>
           length (ttest_ctxs ctx') = length (ttest_ctxs ctx) \<and>
           (\<forall>k < length (ttest_ctxs ctx).
              if 1 \<le> k \<and> k - 1 \<in> set js \<and> d < percentiles ctx ! (k - 1)
              then t_push (ttest_ctxs ctx ! k) (real_of_int d) cls = Some (ttest_ctxs ctx' ! k)
              else ttest_ctxs ctx' ! k = ttest_ctxs ctx ! k)"
  using assms(2,3)
proof (induction js arbitrary: ctx)
  case Nil
  then show ?case by simp
next
  case (Cons j js)
  show ?case
  proof (cases "d < percentiles ctx ! j")
    case False
    from Cons.IH[of ctx] Cons.prems obtain ctx' where
      r: "crop_loop d cls js ctx = Some ctx'" 
        "ticks ctx' = ticks ctx \<and> exec_times ctx' = exec_times ctx \<and>
           classes ctx' = classes ctx \<and> percentiles ctx' = percentiles ctx \<and>
           config ctx' = config ctx \<and>
           length (ttest_ctxs ctx') = length (ttest_ctxs ctx)"
        "\<forall>k < length (ttest_ctxs ctx).
              if 1 \<le> k \<and> k - 1 \<in> set js \<and> d < percentiles ctx ! (k - 1)
              then t_push (ttest_ctxs ctx ! k) (real_of_int d) cls = Some (ttest_ctxs ctx' ! k)
              else ttest_ctxs ctx' ! k = ttest_ctxs ctx ! k"
      by auto
    have "\<forall>k < length (ttest_ctxs ctx).
              if 1 \<le> k \<and> k - 1 \<in> set (j # js) \<and> d < percentiles ctx ! (k - 1)
              then t_push (ttest_ctxs ctx ! k) (real_of_int d) cls = Some (ttest_ctxs ctx' ! k)
              else ttest_ctxs ctx' ! k = ttest_ctxs ctx ! k"
      using r(3) False by auto
    then show ?thesis using r(1,2) False by simp
  next
    case True
    obtain t where t: "t_push (ttest_ctxs ctx ! (j + 1)) (real_of_int d) cls = Some t"
      using t_push_Some[OF assms(1)] by blast
    let ?c = "ctx\<lparr>ttest_ctxs := (ttest_ctxs ctx)[j + 1 := t]\<rparr>"
    have pre: "distinct js" "\<forall>j\<in>set js. j + 1 < length (ttest_ctxs ?c)"
      using Cons.prems by auto
    from Cons.IH[OF pre] obtain ctx' where
      r: "crop_loop d cls js ?c = Some ctx'" 
        "ticks ctx' = ticks ?c \<and> exec_times ctx' = exec_times ?c \<and>
           classes ctx' = classes ?c \<and> percentiles ctx' = percentiles ?c \<and>
           config ctx' = config ?c \<and>
           length (ttest_ctxs ctx') = length (ttest_ctxs ?c)"
        "\<forall>k < length (ttest_ctxs ?c).
              if 1 \<le> k \<and> k - 1 \<in> set js \<and> d < percentiles ?c ! (k - 1)
              then t_push (ttest_ctxs ?c ! k) (real_of_int d) cls = Some (ttest_ctxs ctx' ! k)
              else ttest_ctxs ctx' ! k = ttest_ctxs ?c ! k"
      by blast
    have jn: "j \<notin> set js" "j + 1 < length (ttest_ctxs ctx)" using Cons.prems by auto
    have "\<forall>k < length (ttest_ctxs ctx).
              if 1 \<le> k \<and> k - 1 \<in> set (j # js) \<and> d < percentiles ctx ! (k - 1)
              then t_push (ttest_ctxs ctx ! k) (real_of_int d) cls = Some (ttest_ctxs ctx' ! k)
              else ttest_ctxs ctx' ! k = ttest_ctxs ctx ! k"
    proof (intro allI impI)
      fix k assume k: "k < length (ttest_ctxs ctx)"
      then have rk: "if 1 \<le> k \<and> k - 1 \<in> set js \<and> d < percentiles ctx ! (k - 1)
              then t_push (ttest_ctxs ?c ! k) (real_of_int d) cls = Some (ttest_ctxs ctx' ! k)
              else ttest_ctxs ctx' ! k = ttest_ctxs ?c ! k"
        using r(3)[THEN spec, of k] by simp
      show "if 1 \<le> k \<and> k - 1 \<in> set (j # js) \<and> d < percentiles ctx ! (k - 1)
              then t_push (ttest_ctxs ctx ! k) (real_of_int d) cls = Some (ttest_ctxs ctx' ! k)
              else ttest_ctxs ctx' ! k = ttest_ctxs ctx ! k"
      proof (cases "k = j + 1")
        case True
        then show ?thesis using rk jn t \<open>d < percentiles ctx ! j\<close> by simp
      next
        case False
        then have "k - 1 \<noteq> j \<or> k = 0" by auto
        then show ?thesis using rk False by (auto split: if_splits)
      qed
    qed
    then show ?thesis using r(1,2) True t by simp
  qed
qed


lemma update_one_skip: "exec_times ctx ! i < 0 \<Longrightarrow> update_one h ctx i = Some ctx"
  by (simp add: update_one_def Let_def)

lemma update_one_char:
  assumes d: "0 \<le> exec_times ctx ! i" and c: "classes ctx ! i \<le> 1"
    and len: "length (ttest_ctxs ctx) = DUDECT_TESTS h"
  shows "\<exists>ctx'. update_one h ctx i = Some ctx' \<and>
           ticks ctx' = ticks ctx \<and> exec_times ctx' = exec_times ctx \<and>
           classes ctx' = classes ctx \<and> percentiles ctx' = percentiles ctx \<and>
           config ctx' = config ctx \<and>
           length (ttest_ctxs ctx') = length (ttest_ctxs ctx) \<and>
           t_push (ttest_ctxs ctx ! 0) (real_of_int (exec_times ctx ! i)) (classes ctx ! i)
             = Some (ttest_ctxs ctx' ! 0) \<and>
           (\<forall>k < DUDECT_NUMBER_PERCENTILES h.
              if exec_times ctx ! i < percentiles ctx ! k
              then t_push (ttest_ctxs ctx ! (k + 1)) (real_of_int (exec_times ctx ! i)) (classes ctx ! i)
                     = Some (ttest_ctxs ctx' ! (k + 1))
              else ttest_ctxs ctx' ! (k + 1) = ttest_ctxs ctx ! (k + 1)) \<and>
           (if n (ttest_ctxs ctx' ! 0) 0 > 10000
            then t_push (ttest_ctxs ctx ! (1 + DUDECT_NUMBER_PERCENTILES h))
                   ((real_of_int (exec_times ctx ! i) - mean (ttest_ctxs ctx' ! 0) (classes ctx ! i)) *
                    (real_of_int (exec_times ctx ! i) - mean (ttest_ctxs ctx' ! 0) (classes ctx ! i)))
                   (classes ctx ! i)
                 = Some (ttest_ctxs ctx' ! (1 + DUDECT_NUMBER_PERCENTILES h))
            else ttest_ctxs ctx' ! (1 + DUDECT_NUMBER_PERCENTILES h)
                 = ttest_ctxs ctx ! (1 + DUDECT_NUMBER_PERCENTILES h))"
proof -
  let ?P = "DUDECT_NUMBER_PERCENTILES h"
  let ?d = "exec_times ctx ! i"
  let ?cl = "classes ctx ! i"
  have lenP: "length (ttest_ctxs ctx) = ?P + 2" using len by (simp add: DUDECT_TESTS_def)
  obtain t0 where t0: "t_push (ttest_ctxs ctx ! 0) (real_of_int ?d) ?cl = Some t0"
    using t_push_Some[OF c] by blast
  let ?ca = "ctx\<lparr>ttest_ctxs := (ttest_ctxs ctx)[0 := t0]\<rparr>"
  have "distinct [0..<?P]" "\<forall>j\<in>set [0..<?P]. j + 1 < length (ttest_ctxs ?ca)"
    using lenP by auto
  from crop_loop_char[OF c this, of ?d] obtain ctx1 where
    c1: "crop_loop ?d ?cl [0..<?P] ?ca = Some ctx1"
    and f1: "ticks ctx1 = ticks ctx" "exec_times ctx1 = exec_times ctx"
      "classes ctx1 = classes ctx" "percentiles ctx1 = percentiles ctx"
      "config ctx1 = config ctx" "length (ttest_ctxs ctx1) = ?P + 2"
    and k1: "\<forall>k < length (ttest_ctxs ?ca).
              if 1 \<le> k \<and> k - 1 \<in> set [0..<?P] \<and> ?d < percentiles ?ca ! (k - 1)
              then t_push (ttest_ctxs ?ca ! k) (real_of_int ?d) ?cl = Some (ttest_ctxs ctx1 ! k)
              else ttest_ctxs ctx1 ! k = ttest_ctxs ?ca ! k"
    using lenP by auto
  have a0: "ttest_ctxs ctx1 ! 0 = t0"
    using k1[THEN spec, of 0] lenP by simp
  have ak: "\<forall>k < ?P. if ?d < percentiles ctx ! k
              then t_push (ttest_ctxs ctx ! (k + 1)) (real_of_int ?d) ?cl = Some (ttest_ctxs ctx1 ! (k + 1))
              else ttest_ctxs ctx1 ! (k + 1) = ttest_ctxs ctx ! (k + 1)"
  proof (intro allI impI)
    fix k assume "k < ?P"
    then show "if ?d < percentiles ctx ! k
              then t_push (ttest_ctxs ctx ! (k + 1)) (real_of_int ?d) ?cl = Some (ttest_ctxs ctx1 ! (k + 1))
              else ttest_ctxs ctx1 ! (k + 1) = ttest_ctxs ctx ! (k + 1)"
      using k1[THEN spec, of "k + 1"] lenP by (auto split: if_splits)
  qed
  have a2: "ttest_ctxs ctx1 ! (1 + ?P) = ttest_ctxs ctx ! (1 + ?P)"
    using k1[THEN spec, of "1 + ?P"] lenP by simp
  show ?thesis
  proof (cases "n (ttest_ctxs ctx1 ! 0) 0 > 10000")
    case False
    then have "update_one h ctx i = Some ctx1"
      using d t0 c1 by (simp add: update_one_def Let_def)
    then show ?thesis using f1 a0 ak a2 t0 False lenP by simp
  next
    case True
    let ?cen = "real_of_int ?d - mean (ttest_ctxs ctx1 ! 0) ?cl"
    obtain t2 where t2: "t_push (ttest_ctxs ctx1 ! (1 + ?P)) (?cen * ?cen) ?cl = Some t2"
      using t_push_Some[OF c] by blast
    let ?cb = "ctx1\<lparr>ttest_ctxs := (ttest_ctxs ctx1)[1 + ?P := t2]\<rparr>"
    have u: "update_one h ctx i = Some ?cb"
      using d t0 c1 True t2 f1 by (simp add: update_one_def Let_def)
    have b0: "ttest_ctxs ?cb ! 0 = t0" using a0 f1 by simp
    have bk: "\<forall>k < ?P. if ?d < percentiles ctx ! k
              then t_push (ttest_ctxs ctx ! (k + 1)) (real_of_int ?d) ?cl = Some (ttest_ctxs ?cb ! (k + 1))
              else ttest_ctxs ?cb ! (k + 1) = ttest_ctxs ctx ! (k + 1)"
    proof (intro allI impI)
      fix k assume "k < ?P"
      then show "if ?d < percentiles ctx ! k
              then t_push (ttest_ctxs ctx ! (k + 1)) (real_of_int ?d) ?cl = Some (ttest_ctxs ?cb ! (k + 1))
              else ttest_ctxs ?cb ! (k + 1) = ttest_ctxs ctx ! (k + 1)"
        using ak[THEN spec, of k] f1 by (auto split: if_splits)
    qed
    have b2: "ttest_ctxs ?cb ! (1 + ?P) = t2" using f1 by simp
    have g: "10000 < n (ttest_ctxs ?cb ! 0) 0" using True a0 b0 by simp
    have s2: "t_push (ttest_ctxs ctx ! (1 + ?P))
                   ((real_of_int ?d - mean (ttest_ctxs ?cb ! 0) ?cl) *
                    (real_of_int ?d - mean (ttest_ctxs ?cb ! 0) ?cl)) ?cl
                 = Some (ttest_ctxs ?cb ! (1 + ?P))"
      using t2 a0 a2 b0 b2 by simp
    have fr: "ticks ?cb = ticks ctx \<and> exec_times ?cb = exec_times ctx \<and>
           classes ?cb = classes ctx \<and> percentiles ?cb = percentiles ctx \<and>
           config ?cb = config ctx \<and> length (ttest_ctxs ?cb) = length (ttest_ctxs ctx)"
      using f1 lenP by simp
    have p0: "t_push (ttest_ctxs ctx ! 0) (real_of_int ?d) ?cl = Some (ttest_ctxs ?cb ! 0)"
      using t0 b0 by simp
    show ?thesis
      using u fr p0 bk g s2 by (intro exI[of _ ?cb]) (simp only: if_True simp_thms)
  qed
qed


lemma retained_on_Cons:
  "retained_on ctx (i # js) =
     (if 0 \<le> exec_times ctx ! i then [(exec_times ctx ! i, classes ctx ! i)] else []) @ retained_on ctx js"
  by (simp add: retained_on_def)

lemma retained_on_frame:
  "exec_times ctx' = exec_times ctx \<Longrightarrow> classes ctx' = classes ctx \<Longrightarrow>
   retained_on ctx' js = retained_on ctx js"
  by (simp add: retained_on_def)

lemma update_loop_char:
  assumes "length (ttest_ctxs ctx) = DUDECT_TESTS h"
    and "\<forall>(d, cls) \<in> set (retained_on ctx js). cls \<le> 1"
  shows "\<exists>ctx'. update_loop h js ctx = Some ctx' \<and>
           ticks ctx' = ticks ctx \<and> exec_times ctx' = exec_times ctx \<and>
           classes ctx' = classes ctx \<and> percentiles ctx' = percentiles ctx \<and>
           config ctx' = config ctx \<and>
           length (ttest_ctxs ctx') = length (ttest_ctxs ctx) \<and>
           t_push_all (ttest_ctxs ctx ! 0) (map as_double (retained_on ctx js)) = Some (ttest_ctxs ctx' ! 0) \<and>
           (\<forall>k < DUDECT_NUMBER_PERCENTILES h.
              t_push_all (ttest_ctxs ctx ! (k + 1))
                (map as_double (filter (\<lambda>(d, cls). d < percentiles ctx ! k) (retained_on ctx js)))
              = Some (ttest_ctxs ctx' ! (k + 1)))"
  using assms
proof (induction js arbitrary: ctx)
  case Nil
  then show ?case by (simp add: retained_on_def)
next
  case (Cons i js)
  show ?case
  proof (cases "exec_times ctx ! i < 0")
    case True
    then have r: "retained_on ctx (i # js) = retained_on ctx js"
      by (simp add: retained_on_Cons)
    have u: "update_one h ctx i = Some ctx" using True by (rule update_one_skip)
    from Cons.IH[of ctx] Cons.prems r show ?thesis using u by simp
  next
    case False
    let ?d = "exec_times ctx ! i"
    let ?cl = "classes ctx ! i"
    have r: "retained_on ctx (i # js) = (?d, ?cl) # retained_on ctx js"
      using False by (simp add: retained_on_Cons)
    have c: "?cl \<le> 1" using Cons.prems(2) r by simp
    have d: "0 \<le> ?d" using False by simp
    from update_one_char[OF d c Cons.prems(1)] obtain ctx1 where
      u: "update_one h ctx i = Some ctx1"
      and f: "ticks ctx1 = ticks ctx" "exec_times ctx1 = exec_times ctx"
        "classes ctx1 = classes ctx" "percentiles ctx1 = percentiles ctx"
        "config ctx1 = config ctx" "length (ttest_ctxs ctx1) = length (ttest_ctxs ctx)"
      and p0: "t_push (ttest_ctxs ctx ! 0) (real_of_int ?d) ?cl = Some (ttest_ctxs ctx1 ! 0)"
      and pk: "\<forall>k < DUDECT_NUMBER_PERCENTILES h.
              if ?d < percentiles ctx ! k
              then t_push (ttest_ctxs ctx ! (k + 1)) (real_of_int ?d) ?cl = Some (ttest_ctxs ctx1 ! (k + 1))
              else ttest_ctxs ctx1 ! (k + 1) = ttest_ctxs ctx ! (k + 1)"
      by blast
    have rf: "retained_on ctx1 js = retained_on ctx js"
      using f by (intro retained_on_frame) simp_all
    have pre: "length (ttest_ctxs ctx1) = DUDECT_TESTS h"
      "\<forall>(d, cls) \<in> set (retained_on ctx1 js). cls \<le> 1"
      using f Cons.prems r rf by auto
    from Cons.IH[OF pre] obtain ctx' where
      l: "update_loop h js ctx1 = Some ctx'"
      and f': "ticks ctx' = ticks ctx1" "exec_times ctx' = exec_times ctx1"
        "classes ctx' = classes ctx1" "percentiles ctx' = percentiles ctx1"
        "config ctx' = config ctx1" "length (ttest_ctxs ctx') = length (ttest_ctxs ctx1)"
      and q0: "t_push_all (ttest_ctxs ctx1 ! 0) (map as_double (retained_on ctx1 js)) = Some (ttest_ctxs ctx' ! 0)"
      and qk: "\<forall>k < DUDECT_NUMBER_PERCENTILES h.
              t_push_all (ttest_ctxs ctx1 ! (k + 1))
                (map as_double (filter (\<lambda>(d, cls). d < percentiles ctx1 ! k) (retained_on ctx1 js)))
              = Some (ttest_ctxs ctx' ! (k + 1))"
      by blast
    have g0: "t_push_all (ttest_ctxs ctx ! 0) (map as_double (retained_on ctx (i # js))) = Some (ttest_ctxs ctx' ! 0)"
      using r p0 q0 rf by (simp add: as_double_def)
    have gk: "\<forall>k < DUDECT_NUMBER_PERCENTILES h.
              t_push_all (ttest_ctxs ctx ! (k + 1))
                (map as_double (filter (\<lambda>(d, cls). d < percentiles ctx ! k) (retained_on ctx (i # js))))
              = Some (ttest_ctxs ctx' ! (k + 1))"
    proof (intro allI impI)
      fix k assume k: "k < DUDECT_NUMBER_PERCENTILES h"
      show "t_push_all (ttest_ctxs ctx ! (k + 1))
                (map as_double (filter (\<lambda>(d, cls). d < percentiles ctx ! k) (retained_on ctx (i # js))))
              = Some (ttest_ctxs ctx' ! (k + 1))"
        using pk[THEN spec, of k] qk[THEN spec, of k] k r rf f
        by (auto simp: as_double_def split: if_splits)
    qed
    have "update_loop h (i # js) ctx = Some ctx'" using u l by simp
    then show ?thesis using f f' g0 gk by simp
  qed
qed


text \<open>
  C6. A batch of N - 1 deltas, N at least 1, every retained delta carrying a label 0 or 1.
  \<open>update_statistics\<close> returns, whatever negative deltas the batch holds; it leaves the
  batch and the thresholds as they are; the raw accumulator receives exactly the deltas at
  the indices 10, ..., N - 2 that are not negative, in order; and the cropped accumulator
  \<open>k\<close> (the accumulator \<open>k + 1\<close> of the context) receives exactly those of them that are
  strictly below \<open>percentiles[k]\<close>, for every \<open>k\<close> below the number of percentiles.
\<close>

theorem update_statistics_retained:
  assumes "1 \<le> number_measurements (config ctx)"
    and "length (ttest_ctxs ctx) = DUDECT_TESTS h"
    and "\<forall>(d, cls) \<in> set (retained ctx). cls \<le> 1"
  shows "\<exists>ctx'. update_statistics h ctx = Some ctx' \<and>
           exec_times ctx' = exec_times ctx \<and> classes ctx' = classes ctx \<and>
           percentiles ctx' = percentiles ctx \<and>
           t_push_all (ttest_ctxs ctx ! 0) (map as_double (retained ctx)) = Some (ttest_ctxs ctx' ! 0) \<and>
           (\<forall>k < DUDECT_NUMBER_PERCENTILES h.
              t_push_all (ttest_ctxs ctx ! (k + 1))
                (map as_double (filter (\<lambda>(d, cls). d < percentiles ctx ! k) (retained ctx)))
              = Some (ttest_ctxs ctx' ! (k + 1)))"
proof -
  have "update_statistics h ctx = update_loop h [10..<number_measurements (config ctx) - 1] ctx"
    using assms(1) by (simp add: update_statistics_def Let_def)
  then show ?thesis
    using update_loop_char[OF assms(2), of "[10..<number_measurements (config ctx) - 1]"] assms(3)
    unfolding retained_def by auto
qed

theorem update_statistics_retained_witness:
  "retained \<lparr>ticks = replicate 13 0,
              exec_times = [0, 0, 0, 0, 0, 0, 0, 0, 0, 0, 5, -3, 0],
              classes = [0, 0, 0, 0, 0, 0, 0, 0, 0, 0, 1, 7, 0],
              ttest_ctxs = [t_init, t_init, t_init], percentiles = [6],
              config = \<lparr>chunk_size = 16, number_measurements = 13\<rparr>\<rparr> = [(5, 1)] \<and>
   (\<exists>ctx'. update_statistics \<lparr>DUDECT_NUMBER_PERCENTILES = 1, DUDECT_ENOUGH_MEASUREMENTS = 10000\<rparr>
             \<lparr>ticks = replicate 13 0,
              exec_times = [0, 0, 0, 0, 0, 0, 0, 0, 0, 0, 5, -3, 0],
              classes = [0, 0, 0, 0, 0, 0, 0, 0, 0, 0, 1, 7, 0],
              ttest_ctxs = [t_init, t_init, t_init], percentiles = [6],
              config = \<lparr>chunk_size = 16, number_measurements = 13\<rparr>\<rparr> = Some ctx' \<and>
           t_push_all t_init [(5, 1)] = Some (ttest_ctxs ctx' ! 0) \<and>
           t_push_all t_init [(5, 1)] = Some (ttest_ctxs ctx' ! 1))"
proof -
  let ?c = "\<lparr>ticks = replicate 13 0,
              exec_times = [0, 0, 0, 0, 0, 0, 0, 0, 0, 0, 5, -3, 0],
              classes = [0, 0, 0, 0, 0, 0, 0, 0, 0, 0, 1, 7, 0],
              ttest_ctxs = [t_init, t_init, t_init], percentiles = [6],
              config = \<lparr>chunk_size = 16, number_measurements = 13\<rparr>\<rparr>"
  let ?h = "\<lparr>DUDECT_NUMBER_PERCENTILES = 1, DUDECT_ENOUGH_MEASUREMENTS = 10000\<rparr>"
  have r: "retained ?c = [(5, 1)]"
    by (simp add: retained_def retained_on_def upt_rec)
  have h1: "1 \<le> number_measurements (config ?c)" by simp
  have h2: "length (ttest_ctxs ?c) = DUDECT_TESTS ?h" by (simp add: DUDECT_TESTS_def)
  have h3: "\<forall>(d, cls) \<in> set (retained ?c). cls \<le> 1" unfolding r by simp
  from update_statistics_retained[OF h1 h2 h3] obtain ctx' where
    "update_statistics ?h ?c = Some ctx'"
    "t_push_all (ttest_ctxs ?c ! 0) (map as_double (retained ?c)) = Some (ttest_ctxs ctx' ! 0)"
    "\<forall>k < DUDECT_NUMBER_PERCENTILES ?h.
              t_push_all (ttest_ctxs ?c ! (k + 1))
                (map as_double (filter (\<lambda>(d, cls). d < percentiles ?c ! k) (retained ?c)))
              = Some (ttest_ctxs ctx' ! (k + 1))"
    by blast
  then show ?thesis unfolding r using r by (auto simp: as_double_def)
qed

subsection \<open>Welford's update against the two-pass statistics\<close>

lemma t_push_fields:
  assumes "t_push t x cls = Some t'"
  shows "n t' = (n t)(cls := n t cls + 1)"
    and "mean t' = (mean t)(cls := mean t cls + (x - mean t cls) / (n t cls + 1))"
    and "m2 t' = (m2 t)(cls := m2 t cls + (x - mean t cls) * (x - mean t' cls))"
  using assms by (auto simp: t_push_def Let_def split: if_splits)

lemma welford_step:
  fixes S Q x a :: real
  assumes "0 < a"
  shows "(Q - S * S / a) + (x - S / a) * (x - (S + x) / (a + 1))
         = (Q + x * x) - (S + x) * (S + x) / (a + 1)"
proof -
  have nz: "a \<noteq> 0" "a + 1 \<noteq> 0" using assms by auto
  have "(x - S / a) * (x - (S + x) / (a + 1)) = (a * x - S) * (a * x - S) / (a * (a + 1))"
    using nz by (simp add: field_simps)
  moreover have "x * x - (S + x) * (S + x) / (a + 1) + S * S / a = (a * x - S) * (a * x - S) / (a * (a + 1))"
    using nz by (simp add: field_simps)
  ultimately show ?thesis by linarith
qed

lemma welford_mean_step:
  fixes S x a :: real
  assumes "0 < a"
  shows "S / a + (x - S / a) / (a + 1) = (S + x) / (a + 1)"
proof -
  have nz: "a \<noteq> 0" "a + 1 \<noteq> 0" using assms by auto
  have "S / a + (x - S / a) / (a + 1) = (S * (a + 1) + (a * x - S)) / (a * (a + 1))"
    using nz by (simp add: divide_simps)
  also have "\<dots> = (a * (S + x)) / (a * (a + 1))" by (simp add: algebra_simps)
  also have "\<dots> = (S + x) / (a + 1)" using nz by simp
  finally show ?thesis .
qed


lemma welford_inv_push:
  assumes inv: "welford_inv t cls xs" and p: "t_push t x cls = Some t'"
  shows "welford_inv t' cls (xs @ [x])"
proof (cases "xs = []")
  case True
  then show ?thesis
    using inv t_push_fields[OF p] by (simp add: welford_inv_def)
next
  case False
  let ?a = "real (length xs)"
  let ?S = "sum_list xs"
  let ?Q = "\<Sum>x\<leftarrow>xs. x * x"
  have a: "0 < ?a" using False by simp
  have i: "n t cls = ?a" "mean t cls = ?S / ?a" "m2 t cls = ?Q - ?S * ?S / ?a"
    using inv False by (simp_all add: welford_inv_def)
  have m: "mean t' cls = (?S + x) / (?a + 1)"
    using t_push_fields(2)[OF p] i welford_mean_step[OF a, of ?S x] by simp
  have "m2 t' cls = (?Q - ?S * ?S / ?a) + (x - ?S / ?a) * (x - (?S + x) / (?a + 1))"
    using t_push_fields(3)[OF p] i m by simp
  then have q: "m2 t' cls = (?Q + x * x) - (?S + x) * (?S + x) / (?a + 1)"
    using welford_step[OF a, of ?Q ?S x] by simp
  have "n t' cls = ?a + 1" using t_push_fields(1)[OF p] i by simp
  then show ?thesis using m q by (simp add: welford_inv_def add.commute)
qed

lemma t_push_other:
  assumes "t_push t x cls = Some t'" and "c \<noteq> cls"
  shows "welford_inv t' c xs = welford_inv t c xs"
  using t_push_fields[OF assms(1)] assms(2) by (simp add: welford_inv_def)

lemma class_values_Cons:
  "class_values ((x, c) # ps) cls = (if c = cls then x # class_values ps cls else class_values ps cls)"
  by (simp add: class_values_def)

lemma welford_inv_push_all:
  assumes "\<forall>c. welford_inv t c (H c)" and "\<forall>(x, c) \<in> set ps. c \<le> 1"
  shows "\<exists>t'. t_push_all t ps = Some t' \<and> (\<forall>c. welford_inv t' c (H c @ class_values ps c))"
  using assms
proof (induction ps arbitrary: t H)
  case Nil
  then show ?case by (simp add: class_values_def)
next
  case (Cons p ps)
  obtain x cls where p: "p = (x, cls)" by (cases p)
  have "cls \<le> 1" using Cons.prems(2) p by simp
  then obtain t1 where t1: "t_push t x cls = Some t1" using t_push_Some by blast
  let ?H = "H(cls := H cls @ [x])"
  have "\<forall>c. welford_inv t1 c (?H c)"
    using Cons.prems(1) welford_inv_push[OF _ t1] t_push_other[OF t1] by simp
  moreover have "\<forall>(x, c) \<in> set ps. c \<le> 1" using Cons.prems(2) by simp
  ultimately obtain t' where
    r: "t_push_all t1 ps = Some t'" "\<forall>c. welford_inv t' c (?H c @ class_values ps c)"
    using Cons.IH by blast
  have "\<forall>c. welford_inv t' c (H c @ class_values (p # ps) c)"
  proof
    fix c
    show "welford_inv t' c (H c @ class_values (p # ps) c)"
      using r(2)[THEN spec, of c] p by (cases "c = cls") (simp_all add: class_values_Cons)
  qed
  then show ?case using r(1) t1 p by simp
qed


lemma sum_squared_deviations:
  fixes a :: real
  shows "(\<Sum>x\<leftarrow>xs. (x - a) * (x - a))
         = (\<Sum>x\<leftarrow>xs. x * x) - 2 * a * sum_list xs + real (length xs) * a * a"
  by (induction xs) (simp_all add: algebra_simps)

lemma two_pass_second_moment:
  assumes "xs \<noteq> []"
  shows "(\<Sum>x\<leftarrow>xs. (x - two_pass_mean xs) * (x - two_pass_mean xs))
         = (\<Sum>x\<leftarrow>xs. x * x) - sum_list xs * sum_list xs / real (length xs)"
proof -
  have k: "real (length xs) \<noteq> 0" using assms by simp
  show ?thesis
    unfolding sum_squared_deviations two_pass_mean_def using k by (simp add: field_simps)
qed

text \<open>
  Over exact arithmetic, pushes with classes 0 and 1 into a fresh accumulator never fail,
  and for each class the count is the number of values pushed with it, the mean is their
  two-pass mean (when there is one value at least), the second moment is the sum of their
  squared deviations from that mean, and the variance that \<open>t_compute\<close> forms, the second
  moment over the count minus one, is their two-pass sample variance (when there are two
  values at least).
\<close>

lemma welford_exact_two_pass:
  assumes "\<forall>(x, c) \<in> set ps. c \<le> 1"
  shows "\<exists>t. t_push_all t_init ps = Some t \<and>
           (\<forall>cls. n t cls = real (length (class_values ps cls)) \<and>
              (class_values ps cls \<noteq> [] \<longrightarrow>
                 mean t cls = two_pass_mean (class_values ps cls) \<and>
                 m2 t cls = (\<Sum>x\<leftarrow>class_values ps cls.
                               (x - two_pass_mean (class_values ps cls)) *
                               (x - two_pass_mean (class_values ps cls)))) \<and>
              (2 \<le> length (class_values ps cls) \<longrightarrow>
                 m2 t cls / (n t cls - 1) = two_pass_variance (class_values ps cls) \<and>
                 d_div (Fin (m2 t cls)) (Fin (n t cls - 1))
                   = Fin (two_pass_variance (class_values ps cls))))"
proof -
  have "\<forall>c. welford_inv t_init c ((\<lambda>c. []) c)"
    by (simp add: welford_inv_def t_init_def)
  from welford_inv_push_all[OF this assms] obtain t where
    t: "t_push_all t_init ps = Some t" and inv: "\<forall>c. welford_inv t c (class_values ps c)"
    by auto
  have "n t cls = real (length (class_values ps cls)) \<and>
              (class_values ps cls \<noteq> [] \<longrightarrow>
                 mean t cls = two_pass_mean (class_values ps cls) \<and>
                 m2 t cls = (\<Sum>x\<leftarrow>class_values ps cls.
                               (x - two_pass_mean (class_values ps cls)) *
                               (x - two_pass_mean (class_values ps cls)))) \<and>
              (2 \<le> length (class_values ps cls) \<longrightarrow>
                 m2 t cls / (n t cls - 1) = two_pass_variance (class_values ps cls) \<and>
                 d_div (Fin (m2 t cls)) (Fin (n t cls - 1))
                   = Fin (two_pass_variance (class_values ps cls)))" for cls
  proof -
    let ?xs = "class_values ps cls"
    have i: "welford_inv t cls ?xs" using inv by simp
    have c: "n t cls = real (length ?xs)" using i by (simp add: welford_inv_def)
    have m: "mean t cls = two_pass_mean ?xs" if "?xs \<noteq> []"
      using i that by (simp add: welford_inv_def two_pass_mean_def)
    have q: "m2 t cls = (\<Sum>x\<leftarrow>?xs. (x - two_pass_mean ?xs) * (x - two_pass_mean ?xs))"
      if "?xs \<noteq> []"
      using i that two_pass_second_moment[OF that] by (simp add: welford_inv_def)
    have v: "m2 t cls / (n t cls - 1) = two_pass_variance ?xs \<and>
             d_div (Fin (m2 t cls)) (Fin (n t cls - 1)) = Fin (two_pass_variance ?xs)"
      if "2 \<le> length ?xs"
    proof -
      have ne: "?xs \<noteq> []" using that by auto
      have "n t cls - 1 \<noteq> 0" using c that by simp
      then show ?thesis using q[OF ne] c by (simp add: two_pass_variance_def)
    qed
    show ?thesis using c m q v by blast
  qed
  then show ?thesis using t by blast
qed

subsection \<open>Welford's update in binary64\<close>

text \<open>
  The rounding first: \<open>ilog2\<close> is the binary exponent, \<open>binary64\<close> errs by half a unit in
  the last place at most, leaves the numbers of the format alone, and returns one of them.
\<close>

lemma ilog2_bounds:
  assumes "x \<noteq> 0"
  shows "2 powi (ilog2 x) \<le> \<bar>x\<bar>" and "\<bar>x\<bar> < 2 powi (ilog2 x + 1)"
proof -
  have "2 powi (ilog2 x) \<le> \<bar>x\<bar> \<and> \<bar>x\<bar> < 2 powi (ilog2 x + 1)"
  proof (cases "1 \<le> \<bar>x\<bar>")
    case True
    let ?n = "\<lfloor>\<bar>x\<bar>\<rfloor>"
    have n: "0 < ?n" using True by linarith
    let ?b = "bitlen ?n"
    have b1: "1 \<le> ?b" using n by (simp add: bitlen_alt_def)
    from bitlen_bounds[OF n] have lo: "2 ^ nat (?b - 1) \<le> ?n" and hi: "?n < 2 ^ nat ?b" by auto
    have "(2::real) ^ nat (?b - 1) \<le> of_int ?n" using lo
      by (metis of_int_le_iff of_int_numeral of_int_power)
    then have l: "(2::real) ^ nat (?b - 1) \<le> \<bar>x\<bar>" by linarith
    have "?n + 1 \<le> 2 ^ nat ?b" using hi by simp
    then have "of_int (?n + 1) \<le> (2::real) ^ nat ?b"
      by (metis of_int_le_iff of_int_numeral of_int_power)
    then have h: "\<bar>x\<bar> < (2::real) ^ nat ?b" by linarith
    have e: "ilog2 x = ?b - 1" using True by (simp add: ilog2_def)
    show ?thesis unfolding e using l h b1 by (simp add: power_int_def)
  next
    case False
    let ?y = "1 / \<bar>x\<bar>"
    have ax: "0 < \<bar>x\<bar>" "\<bar>x\<bar> < 1" using assms False by auto
    then have y1: "1 < ?y" by simp
    let ?n = "\<lceil>?y\<rceil> - 1"
    have n: "0 < ?n" using y1 by linarith
    let ?b = "bitlen ?n"
    have b1: "1 \<le> ?b" using n by (simp add: bitlen_alt_def)
    from bitlen_bounds[OF n] have lo: "2 ^ nat (?b - 1) \<le> ?n" and hi: "?n < 2 ^ nat ?b" by auto
    have "(2::real) ^ nat (?b - 1) \<le> of_int ?n" using lo
      by (metis of_int_le_iff of_int_numeral of_int_power)
    moreover have "of_int ?n < ?y" by linarith
    ultimately have l: "(2::real) ^ nat (?b - 1) < ?y" by linarith
    have "?n + 1 \<le> 2 ^ nat ?b" using hi by simp
    then have "of_int (?n + 1) \<le> (2::real) ^ nat ?b"
      by (metis of_int_le_iff of_int_numeral of_int_power)
    moreover have "?y \<le> of_int (?n + 1)" by simp
    ultimately have h: "?y \<le> (2::real) ^ nat ?b" by linarith
    have e: "ilog2 x = - ?b" using False by (simp add: ilog2_def)
    have p: "(0::real) < 2 ^ nat ?b" "(0::real) < 2 ^ nat (?b - 1)" by simp_all
    have 1: "1 / 2 ^ nat ?b \<le> \<bar>x\<bar>"
      using h ax p by (simp add: field_simps)
    have 2: "\<bar>x\<bar> < 1 / 2 ^ nat (?b - 1)"
      using l ax p by (simp add: field_simps)
    have pa: "(2::real) powi (- ?b) = 1 / 2 ^ nat ?b"
      using b1 by (simp add: power_int_def field_simps)
    have pb: "(2::real) powi (- ?b + 1) = 1 / 2 ^ nat (?b - 1)"
    proof (cases "?b = 1")
      case True
      then show ?thesis by simp
    next
      case False
      then have "- ?b + 1 < 0" using b1 by simp
      moreover have "nat (- (- ?b + 1)) = nat (?b - 1)" by simp
      ultimately show ?thesis by (simp add: power_int_def field_simps)
    qed
    show ?thesis unfolding e pa pb using 1 2 by simp
  qed
  then show "2 powi (ilog2 x) \<le> \<bar>x\<bar>" and "\<bar>x\<bar> < 2 powi (ilog2 x + 1)" by simp_all
qed

lemma round_even_error: "\<bar>of_int (round_even y) - y\<bar> \<le> 1 / 2"
  unfolding round_even_def Let_def by (auto; linarith)

lemma round_even_of_int: "round_even (of_int z) = z"
  by (simp add: round_even_def)

lemma binary64_zero: "binary64 0 = 0"
  by (simp add: binary64_def round_even_def)


lemma binary64_exact:
  assumes z: "\<bar>z\<bar> < 2 ^ 53" and e: "- 1074 \<le> e"
  shows "binary64 (of_int z * 2 powi e) = of_int z * 2 powi e"
proof (cases "z = 0")
  case True
  then show ?thesis by (simp add: binary64_zero)
next
  case False
  let ?x = "real_of_int z * 2 powi e"
  have x0: "?x \<noteq> 0" using False by simp
  define E where "E = ilog2 ?x"
  have "\<bar>real_of_int z\<bar> < 2 ^ 53" using z
    by (metis of_int_abs of_int_less_iff of_int_numeral of_int_power)
  then have "\<bar>?x\<bar> < 2 ^ 53 * 2 powi e" by (simp add: abs_mult)
  also have "\<dots> = 2 powi (53 + e)" by (simp add: power_int_add)
  finally have "(2::real) powi E < 2 powi (53 + e)"
    using ilog2_bounds(1)[OF x0] unfolding E_def by linarith
  have E: "E < 53 + e"
  proof (rule ccontr)
    assume "\<not> E < 53 + e"
    then have "53 + e \<le> E" by simp
    from power_int_increasing[OF this, of "2::real"] \<open>(2::real) powi E < 2 powi (53 + e)\<close>
    show False by simp
  qed
  define e' where "e' = max (E - 52) (- 1074)"
  have e': "e' \<le> e" using E e by (simp add: e'_def)
  have "?x / 2 powi e' = of_int z * (2 powi e / 2 powi e')" by simp
  also have "2 powi e / 2 powi e' = (2::real) powi (e - e')" by (simp add: power_int_diff)
  also have "\<dots> = 2 ^ nat (e - e')" using e' by (simp add: power_int_def)
  finally have q: "?x / 2 powi e' = of_int (z * 2 ^ nat (e - e'))" by simp
  have "binary64 ?x = of_int (round_even (?x / 2 powi e')) * 2 powi e'"
    by (simp add: binary64_def e'_def E_def Let_def)
  also have "\<dots> = of_int (z * 2 ^ nat (e - e')) * 2 powi e'"
    unfolding q round_even_of_int ..
  also have "\<dots> = ?x / 2 powi e' * 2 powi e'" unfolding q ..
  also have "\<dots> = ?x" by simp
  finally show ?thesis .
qed

lemma binary64_of_nat:
  assumes "k < 2 ^ 53"
  shows "binary64 (real k) = real k"
proof -
  have "\<bar>int k\<bar> < 2 ^ 53" using assms by simp
  from binary64_exact[OF this, of 0] show ?thesis by simp
qed

lemma binary64_representable:
  "\<exists>z e. \<bar>z\<bar> \<le> 2 ^ 53 \<and> - 1074 \<le> e \<and> binary64 x = of_int z * 2 powi e"
proof -
  define e where "e = max (ilog2 x - 52) (- 1074)"
  define z where "z = round_even (x / 2 powi e)"
  have b: "binary64 x = of_int z * 2 powi e"
    by (simp add: binary64_def e_def z_def Let_def)
  have e: "- 1074 \<le> e" "ilog2 x + 1 \<le> e + 53" by (simp_all add: e_def)
  have "\<bar>x / 2 powi e\<bar> < 2 ^ 53"
  proof (cases "x = 0")
    case True
    then show ?thesis by simp
  next
    case False
    have "\<bar>x\<bar> < 2 powi (ilog2 x + 1)" using ilog2_bounds(2)[OF False] .
    also have "\<dots> \<le> 2 powi (e + 53)" using e(2) by (intro power_int_increasing) simp_all
    also have "\<dots> = 2 powi e * 2 ^ 53" by (simp add: power_int_add)
    finally have "\<bar>x\<bar> / 2 powi e < 2 ^ 53" by (simp add: pos_divide_less_eq mult.commute)
    then show ?thesis by simp
  qed
  then have "\<bar>real_of_int z\<bar> < 2 ^ 53 + 1"
    using round_even_error[of "x / 2 powi e"] unfolding z_def by linarith
  then have "real_of_int \<bar>z\<bar> < real_of_int (2 ^ 53 + 1)" by simp
  then have "\<bar>z\<bar> < 2 ^ 53 + 1" by (simp only: of_int_less_iff)
  then have "\<bar>z\<bar> \<le> 2 ^ 53" by simp
  then show ?thesis using e(1) b by blast
qed

text \<open>No number of the format is nearer to \<open>x\<close> than \<open>binary64 x\<close>.\<close>

lemma round_even_nearest: "\<bar>of_int (round_even y) - y\<bar> \<le> \<bar>of_int w - y\<bar>"
proof -
  define f where "f = \<lfloor>y\<rfloor>"
  define d where "d = y - of_int f"
  have d: "0 \<le> d" "d < 1" unfolding d_def f_def by linarith+
  have r: "\<bar>of_int (round_even y) - y\<bar> \<le> d" "\<bar>of_int (round_even y) - y\<bar> \<le> 1 - d"
    using d unfolding round_even_def Let_def d_def f_def by auto
  consider "w \<le> f" | "f + 1 \<le> w" by linarith
  then show ?thesis
  proof cases
    case 1
    then have "real_of_int w \<le> of_int f" by simp
    then have "d \<le> \<bar>of_int w - y\<bar>" unfolding d_def by linarith
    then show ?thesis using r(1) by linarith
  next
    case 2
    then have "real_of_int (f + 1) \<le> of_int w" by (simp only: of_int_le_iff)
    then have "1 - d \<le> \<bar>of_int w - y\<bar>" unfolding d_def by simp
    then show ?thesis using r(2) by linarith
  qed
qed

lemma binary64_nearest:
  assumes z: "\<bar>z\<bar> < 2 ^ 53" and e: "- 1074 \<le> e"
  shows "\<bar>binary64 x - x\<bar> \<le> \<bar>of_int z * 2 powi e - x\<bar>"
proof (cases "x = 0")
  case True
  then show ?thesis by (simp add: binary64_zero)
next
  case x0: False
  define e0 where "e0 = max (ilog2 x - 52) (- 1074)"
  define P :: real where "P = 2 powi e0"
  have P: "0 < P" by (simp add: P_def)
  have b: "binary64 x = of_int (round_even (x / P)) * P"
    by (simp add: binary64_def e0_def P_def Let_def)
  have grid: "\<bar>binary64 x - x\<bar> \<le> \<bar>of_int w * P - x\<bar>" for w :: int
  proof -
    have 1: "\<bar>binary64 x - x\<bar> = \<bar>of_int (round_even (x / P)) - x / P\<bar> * P"
    proof -
      have "binary64 x - x = (of_int (round_even (x / P)) - x / P) * P"
        unfolding b using P by (simp add: field_simps)
      then show ?thesis using P by (simp add: abs_mult)
    qed
    have 2: "\<bar>of_int w * P - x\<bar> = \<bar>of_int w - x / P\<bar> * P"
    proof -
      have "of_int w * P - x = (of_int w - x / P) * P" using P by (simp add: field_simps)
      then show ?thesis using P by (simp add: abs_mult)
    qed
    have "\<bar>of_int (round_even (x / P)) - x / P\<bar> * P \<le> \<bar>of_int w - x / P\<bar> * P"
      using P round_even_nearest[of "x / P" w] by (intro mult_right_mono) simp_all
    then show ?thesis unfolding 1 2 .
  qed
  show ?thesis
  proof (cases "e0 \<le> e")
    case True
    have "(2::real) powi e = 2 powi (e - e0) * 2 powi e0" by (simp add: power_int_diff)
    also have "(2::real) powi (e - e0) = 2 ^ nat (e - e0)" using True by (simp add: power_int_def)
    finally have pe: "(2::real) powi e = 2 ^ nat (e - e0) * P" by (simp add: P_def)
    have "of_int z * 2 powi e = of_int (z * 2 ^ nat (e - e0)) * P"
      unfolding pe by simp
    then show ?thesis using grid[of "z * 2 ^ nat (e - e0)"] by (simp only:)
  next
    case False
    then have lt: "e < e0" by simp
    then have e0: "e0 = ilog2 x - 52" using e by (simp add: e0_def)
    define Q :: real where "Q = 2 powi (ilog2 x)"
    have Q: "Q = 2 ^ 52 * P" unfolding Q_def P_def e0 by (simp add: power_int_diff)
    have Qx: "Q \<le> \<bar>x\<bar>" using ilog2_bounds(1)[OF x0] by (simp add: Q_def)
    have "\<bar>real_of_int z\<bar> < 2 ^ 53" using z
      by (metis of_int_abs of_int_less_iff of_int_numeral of_int_power)
    then have "\<bar>real_of_int z * 2 powi e\<bar> < 2 ^ 53 * 2 powi e" by (simp add: abs_mult)
    also have "\<dots> = 2 powi (53 + e)" by (simp add: power_int_add)
    also have "\<dots> \<le> 2 powi (ilog2 x)" using lt e0 by (intro power_int_increasing) simp_all
    finally have yQ: "\<bar>real_of_int z * 2 powi e\<bar> < Q" by (simp add: Q_def)
    have far: "\<bar>x\<bar> - Q \<le> \<bar>of_int z * 2 powi e - x\<bar>" using yQ by linarith
    show ?thesis
    proof (cases "0 < x")
      case True
      have "\<bar>binary64 x - x\<bar> \<le> \<bar>of_int (2 ^ 52) * P - x\<bar>" by (rule grid)
      also have "\<dots> = \<bar>x\<bar> - Q" using True Qx Q by simp
      finally show ?thesis using far by linarith
    next
      case False
      have "\<bar>binary64 x - x\<bar> \<le> \<bar>of_int (- (2 ^ 52)) * P - x\<bar>" by (rule grid)
      also have "\<dots> = \<bar>x\<bar> - Q" using False Qx Q by simp
      finally show ?thesis using far by linarith
    qed
  qed
qed

























lemma t_push_all_d_append:
  "t_push_all_d t (ps @ qs) =
     (case t_push_all_d t ps of None \<Rightarrow> None | Some t' \<Rightarrow> t_push_all_d t' qs)"
  by (induction ps arbitrary: t) (auto split: option.splits)

lemma d_round_count:
  assumes "k \<le> 2 ^ 53"
  shows "d_round (Fin (real k)) = Fin (real k)"
proof -
  have b: "binary64 (real k) = real k"
  proof (cases "k = 2 ^ 53")
    case True
    have "binary64 (of_int 1 * 2 powi 53) = of_int 1 * 2 powi 53"
      by (rule binary64_exact) simp_all
    then show ?thesis using True by simp
  next
    case False
    then have "k < 2 ^ 53" using assms by simp
    then show ?thesis by (rule binary64_of_nat)
  qed
  have "real k \<le> 2 ^ 53" using assms by (metis of_nat_le_iff of_nat_numeral of_nat_power)
  moreover have "(2::real) ^ 53 < 2 ^ 1024" by simp
  ultimately have "\<bar>real k\<bar> < 2 ^ 1024" by simp
  then show ?thesis using b by simp
qed

lemma push_zero:
  assumes "k < 2 ^ 53"
  shows "t_push_d (zeros_d k) (Fin 0) 0 = Some (zeros_d (k + 1))"
proof -
  have "k + 1 \<le> 2 ^ 53" using assms by simp
  from d_round_count[OF this] have r: "d_round (Fin (1 + real k)) = Fin (1 + real k)"
    by (simp add: add.commute)
  have r0: "d_round (Fin 0) = Fin 0" by (simp add: binary64_zero)
  have "0 \<le> real k" by simp
  then have nz: "1 + real k \<noteq> 0" by linarith
  show ?thesis
    using nz by (simp add: t_push_d_def zeros_d_def Let_def fl_add_def fl_sub_def fl_mul_def
        fl_div_def r r0 fun_eq_iff add.commute del: d_round.simps(1))
qed

lemma push_zeros:
  assumes "k + j \<le> 2 ^ 53"
  shows "t_push_all_d (zeros_d k) (replicate j (Fin 0, 0)) = Some (zeros_d (k + j))"
  using assms
proof (induction j arbitrary: k)
  case 0
  then show ?case by simp
next
  case (Suc j)
  have k: "k < 2 ^ 53" and kj: "(k + 1) + j \<le> 2 ^ 53" using Suc.prems by simp_all
  show ?case using push_zero[OF k] Suc.IH[OF kj] by simp
qed

text \<open>
  Nor can the number of pushes be left unbounded: the count is a double, and at \<open>2 ^ 53\<close> it
  stays where it is.
\<close>

lemma count_saturates:
  "case t_push_all_d t_init_d (replicate (2 ^ 53) (Fin 0, 0) @ [(Fin 0, 0)]) of
     None \<Rightarrow> False
   | Some td \<Rightarrow> n_d td 0 = Fin (2 ^ 53)"
proof -
  have i: "t_init_d = zeros_d 0" by (simp add: t_init_d_def zeros_d_def fun_eq_iff)
  have "0 + 2 ^ 53 \<le> (2::nat) ^ 53" by simp
  from push_zeros[OF this]
  have a: "t_push_all_d t_init_d (replicate (2 ^ 53) (Fin 0, 0)) = Some (zeros_d (2 ^ 53))"
    unfolding i by simp
  have "binary64 (2 ^ 53 + 1) = 2 ^ 53"
    by (simp add: binary64_def ilog2_def round_even_def Let_def compute_bitlen)
  then have r: "d_round (Fin (2 ^ 53 + 1)) = Fin (2 ^ 53)" by simp
  have r0: "d_round (Fin 0) = Fin 0" by (simp add: binary64_zero)
  show ?thesis
    unfolding t_push_all_d_append a
    using r r0 by (simp add: t_push_d_def zeros_d_def Let_def fl_add_def fl_sub_def fl_mul_def
        fl_div_def del: d_round.simps(1))
qed

text \<open>
  Within the bounds the rounding is there all the same: after 1, 2 and 4 the mean is
  \<open>0x1.2aaaaaaaaaaabp+1\<close> and the second moment \<open>0x1.2aaaaaaaaaaaap+2\<close>, not 7/3 and 14/3.
\<close>

lemma t_push_d_rounds:
  "case t_push_all_d t_init_d [(Fin 1, 0), (Fin 2, 0), (Fin 4, 0)] of
     None \<Rightarrow> False
   | Some td \<Rightarrow>
       n_d td 0 = Fin 3 \<and>
       mean_d td 0 = Fin (5254199565265579 / 2251799813685248) \<and>
       m2_d td 0 = Fin (2627099782632789 / 562949953421312) \<and>
       variance_d td 0 = Fin (2627099782632789 / 1125899906842624)"
  by (simp add: t_push_d_def t_init_d_def variance_d_def fl_add_def fl_sub_def fl_mul_def
      fl_div_def binary64_def ilog2_def round_even_def Let_def compute_bitlen)

subsection \<open>The classifier\<close>

lemma d_less_irrefl: "\<not> d_less a a"
  by (cases a) auto

lemma d_less_asym: "d_less a b \<Longrightarrow> \<not> d_less b a"
  by (cases a; cases b) auto

lemma d_less_trans: "d_less a b \<Longrightarrow> d_less b c \<Longrightarrow> d_less a c"
  by (cases a; cases b; cases c) auto

lemma d_less_trans_neg: "d_less a b \<Longrightarrow> \<not> d_less a c \<Longrightarrow> \<not> d_less b c"
  by (cases a; cases b; cases c) auto

lemma max_test_loop_char:
  "case max_test_loop h ctx js (ret0, mx0) of
     (r, m) \<Rightarrow>
       ((r = ret0 \<and> m = mx0) \<or>
        (r \<in> set js \<and> meets_gate h ctx r \<and> m = abs_t ctx r \<and> d_less mx0 m)) \<and>
       (\<forall>j \<in> set js. meets_gate h ctx j \<longrightarrow> \<not> d_less m (abs_t ctx j))"
proof (induction js arbitrary: ret0 mx0)
  case Nil
  then show ?case by simp
next
  case (Cons i js)
  let ?x = "abs_t ctx i"
  show ?case
  proof (cases "meets_gate h ctx i")
    case False
    then have e: "max_test_loop h ctx (i # js) (ret0, mx0) = max_test_loop h ctx js (ret0, mx0)"
      by (simp add: meets_gate_def)
    show ?thesis unfolding e using Cons.IH[of ret0 mx0] False by (auto split: prod.splits)
  next
    case g: True
    show ?thesis
    proof (cases "d_less mx0 ?x")
      case True
      then have e: "max_test_loop h ctx (i # js) (ret0, mx0) = max_test_loop h ctx js (i, ?x)"
        using g by (simp add: meets_gate_def abs_t_def Let_def)
      obtain r m where rm: "max_test_loop h ctx js (i, ?x) = (r, m)" by (cases "max_test_loop h ctx js (i, ?x)")
      from Cons.IH[of i ?x] rm have
        a: "(r = i \<and> m = ?x) \<or> (r \<in> set js \<and> meets_gate h ctx r \<and> m = abs_t ctx r \<and> d_less ?x m)"
        and b: "\<forall>j \<in> set js. meets_gate h ctx j \<longrightarrow> \<not> d_less m (abs_t ctx j)"
        by auto
      have c: "\<not> d_less m ?x" using a d_less_irrefl d_less_asym by blast
      have d: "d_less mx0 m" using a True d_less_trans by blast
      show ?thesis unfolding e rm using a b c d g by auto
    next
      case False
      then have e: "max_test_loop h ctx (i # js) (ret0, mx0) = max_test_loop h ctx js (ret0, mx0)"
        using g by (simp add: meets_gate_def abs_t_def Let_def)
      obtain r m where rm: "max_test_loop h ctx js (ret0, mx0) = (r, m)"
        by (cases "max_test_loop h ctx js (ret0, mx0)")
      from Cons.IH[of ret0 mx0] rm have
        a: "(r = ret0 \<and> m = mx0) \<or> (r \<in> set js \<and> meets_gate h ctx r \<and> m = abs_t ctx r \<and> d_less mx0 m)"
        and b: "\<forall>j \<in> set js. meets_gate h ctx j \<longrightarrow> \<not> d_less m (abs_t ctx j)"
        by auto
      have c: "\<not> d_less m ?x" using a False d_less_trans_neg by blast
      show ?thesis unfolding e rm using a b c by auto
    qed
  qed
qed



lemma max_test_index_cases:
  "(max_test_index h ctx = 0 \<and>
      (\<forall>j < DUDECT_TESTS h. meets_gate h ctx j \<longrightarrow> \<not> d_less (Fin 0) (abs_t ctx j))) \<or>
   (max_test_index h ctx < DUDECT_TESTS h \<and> meets_gate h ctx (max_test_index h ctx) \<and>
      d_less (Fin 0) (abs_t ctx (max_test_index h ctx)) \<and>
      (\<forall>j < DUDECT_TESTS h. meets_gate h ctx j \<longrightarrow>
          \<not> d_less (abs_t ctx (max_test_index h ctx)) (abs_t ctx j)))"
proof -
  obtain r m where rm: "max_test_loop h ctx [0..<DUDECT_TESTS h] (0, Fin 0) = (r, m)"
    by (cases "max_test_loop h ctx [0..<DUDECT_TESTS h] (0, Fin 0)")
  have r: "max_test_index h ctx = r" using rm by (simp add: max_test_index_def)
  from max_test_loop_char[where h=h and ctx=ctx and js="[0..<DUDECT_TESTS h]" and ?ret0.0=0 and ?mx0.0="Fin 0"] rm have
    a: "(r = 0 \<and> m = Fin 0) \<or>
        (r \<in> set [0..<DUDECT_TESTS h] \<and> meets_gate h ctx r \<and> m = abs_t ctx r \<and> d_less (Fin 0) m)"
    and b: "\<forall>j \<in> set [0..<DUDECT_TESTS h]. meets_gate h ctx j \<longrightarrow> \<not> d_less m (abs_t ctx j)"
    by auto
  show ?thesis unfolding r using a b by auto
qed



lemma report_enough:
  assumes "real (DUDECT_ENOUGH_MEASUREMENTS h)
             \<le> n (max_test h ctx) 0 + n (max_test h ctx) 1"
  shows "report h ctx =
           (if d_less (Fin 500) (abs_t ctx (max_test_index h ctx)) \<or>
               d_less (Fin 10) (abs_t ctx (max_test_index h ctx))
            then DUDECT_LEAKAGE_FOUND else DUDECT_NO_LEAKAGE_EVIDENCE_YET)"
  using assms by (simp add: report_def Let_def abs_t_def max_test_def)

lemma report_not_enough:
  "report h ctx = DUDECT_NOT_ENOUGHT_MEASUREMENTS \<longleftrightarrow>
     n (max_test h ctx) 0 + n (max_test h ctx) 1 < real (DUDECT_ENOUGH_MEASUREMENTS h)"
  by (simp add: report_def Let_def)

lemma dudect_main_accumulate:
  assumes "dudect_main h ctx lab cyc = Some (ctx', v)"
    and "percentiles ctx ! (DUDECT_NUMBER_PERCENTILES h - 1) \<noteq> 0"
  shows "\<exists>ctx1. measure cyc (ctx\<lparr>classes := map lab [0..<number_measurements (config ctx)]\<rparr>) = Some ctx1 \<and>
           update_statistics h ctx1 = Some ctx' \<and> v = report h ctx'"
proof -
  obtain ctx1 where m: "measure cyc (ctx\<lparr>classes := map lab [0..<number_measurements (config ctx)]\<rparr>) = Some ctx1"
    using assms(1) by (auto simp: dudect_main_def split: option.splits)
  have p: "percentiles ctx1 = percentiles ctx" using measure_frame[OF m] by simp
  show ?thesis
    using assms m p by (auto simp: dudect_main_def Let_def split: option.splits if_splits)
qed

lemma dudect_main_calibrate:
  assumes "dudect_main h ctx lab cyc = Some (ctx', v)"
    and "percentiles ctx ! (DUDECT_NUMBER_PERCENTILES h - 1) = 0"
  shows "\<exists>ctx1. measure cyc (ctx\<lparr>classes := map lab [0..<number_measurements (config ctx)]\<rparr>) = Some ctx1 \<and>
           prepare_percentiles h ctx1 = Some ctx' \<and> v = DUDECT_NOT_ENOUGHT_MEASUREMENTS"
proof -
  obtain ctx1 where m: "measure cyc (ctx\<lparr>classes := map lab [0..<number_measurements (config ctx)]\<rparr>) = Some ctx1"
    using assms(1) by (auto simp: dudect_main_def split: option.splits)
  have p: "percentiles ctx1 = percentiles ctx" using measure_frame[OF m] by simp
  show ?thesis
    using assms m p by (auto simp: dudect_main_def Let_def split: option.splits if_splits)
qed


lemma update_one_Some_char:
  assumes u: "update_one h ctx i = Some ctx'" and len: "length (ttest_ctxs ctx) = DUDECT_TESTS h"
    and d: "0 \<le> exec_times ctx ! i"
  shows "classes ctx ! i \<le> 1 \<and>
           ticks ctx' = ticks ctx \<and> exec_times ctx' = exec_times ctx \<and>
           classes ctx' = classes ctx \<and> percentiles ctx' = percentiles ctx \<and>
           config ctx' = config ctx \<and>
           length (ttest_ctxs ctx') = length (ttest_ctxs ctx) \<and>
           t_push (ttest_ctxs ctx ! 0) (real_of_int (exec_times ctx ! i)) (classes ctx ! i)
             = Some (ttest_ctxs ctx' ! 0) \<and>
           (\<forall>k < DUDECT_NUMBER_PERCENTILES h.
              if exec_times ctx ! i < percentiles ctx ! k
              then t_push (ttest_ctxs ctx ! (k + 1)) (real_of_int (exec_times ctx ! i)) (classes ctx ! i)
                     = Some (ttest_ctxs ctx' ! (k + 1))
              else ttest_ctxs ctx' ! (k + 1) = ttest_ctxs ctx ! (k + 1)) \<and>
           (if n (ttest_ctxs ctx' ! 0) 0 > 10000
            then t_push (ttest_ctxs ctx ! (1 + DUDECT_NUMBER_PERCENTILES h))
                   ((real_of_int (exec_times ctx ! i) - mean (ttest_ctxs ctx' ! 0) (classes ctx ! i)) *
                    (real_of_int (exec_times ctx ! i) - mean (ttest_ctxs ctx' ! 0) (classes ctx ! i)))
                   (classes ctx ! i)
                 = Some (ttest_ctxs ctx' ! (1 + DUDECT_NUMBER_PERCENTILES h))
            else ttest_ctxs ctx' ! (1 + DUDECT_NUMBER_PERCENTILES h)
                 = ttest_ctxs ctx ! (1 + DUDECT_NUMBER_PERCENTILES h))"
proof -
  have "t_push (ttest_ctxs ctx ! 0) (real_of_int (exec_times ctx ! i)) (classes ctx ! i) \<noteq> None"
    using u d by (auto simp: update_one_def Let_def split: option.splits)
  then have c: "classes ctx ! i \<le> 1" using t_push_valid by blast
  from update_one_char[OF d c len] u show ?thesis using c by auto
qed

lemma t_push_count:
  "t_push t x cls = Some t' \<Longrightarrow> n t' c = n t c + (if c = cls then 1 else 0)"
  by (auto simp: t_push_def Let_def split: if_splits)

lemma update_one_counts:
  assumes u: "update_one h ctx i = Some ctx'" and len: "length (ttest_ctxs ctx) = DUDECT_TESTS h"
    and ok: "counts_ok h ctx"
  shows "counts_ok h ctx'"
proof (cases "exec_times ctx ! i < 0")
  case True
  then show ?thesis using u ok by (simp add: update_one_skip)
next
  case False
  let ?P = "DUDECT_NUMBER_PERCENTILES h"
  let ?d = "real_of_int (exec_times ctx ! i)"
  let ?cl = "classes ctx ! i"
  let ?cen = "(?d - mean (ttest_ctxs ctx' ! 0) ?cl) * (?d - mean (ttest_ctxs ctx' ! 0) ?cl)"
  from False have d: "0 \<le> exec_times ctx ! i" by simp
  note ch = update_one_Some_char[OF u len d]
  have p0: "t_push (ttest_ctxs ctx ! 0) ?d ?cl = Some (ttest_ctxs ctx' ! 0)" using ch by blast
  have pk: "\<And>k. k < ?P \<Longrightarrow>
              t_push (ttest_ctxs ctx ! (k + 1)) ?d ?cl = Some (ttest_ctxs ctx' ! (k + 1)) \<or>
              ttest_ctxs ctx' ! (k + 1) = ttest_ctxs ctx ! (k + 1)"
    using ch by (meson)
  have p2: "t_push (ttest_ctxs ctx ! (1 + ?P)) ?cen ?cl = Some (ttest_ctxs ctx' ! (1 + ?P)) \<or>
            ttest_ctxs ctx' ! (1 + ?P) = ttest_ctxs ctx ! (1 + ?P)"
    using ch by (meson)
  have raw: "\<And>c. n (ttest_ctxs ctx' ! 0) c = n (ttest_ctxs ctx ! 0) c + (if c = ?cl then 1 else 0)"
    using t_push_count[OF p0] by simp
  have any: "0 \<le> n (ttest_ctxs ctx' ! j) c \<and> n (ttest_ctxs ctx' ! j) c \<le> n (ttest_ctxs ctx' ! 0) c"
    if j: "j < DUDECT_TESTS h" for j c
  proof -
    have old: "0 \<le> n (ttest_ctxs ctx ! j) c" "n (ttest_ctxs ctx ! j) c \<le> n (ttest_ctxs ctx ! 0) c"
      using ok j by (simp_all add: counts_ok_def)
    have "(\<exists>x. t_push (ttest_ctxs ctx ! j) x ?cl = Some (ttest_ctxs ctx' ! j)) \<or>
          ttest_ctxs ctx' ! j = ttest_ctxs ctx ! j"
    proof -
      have "j = 0 \<or> (\<exists>k. j = k + 1 \<and> k < ?P) \<or> j = 1 + ?P"
        using j unfolding DUDECT_TESTS_def by (cases j) (auto simp: less_Suc_eq)
      then consider "j = 0" | k where "j = k + 1" "k < ?P" | "j = 1 + ?P"
        by blast
      then show ?thesis
      proof cases
        case 1
        then show ?thesis using p0 by blast
      next
        case 2
        then show ?thesis using pk[of k] by blast
      next
        case 3
        then show ?thesis using p2 by blast
      qed
    qed
    then have "n (ttest_ctxs ctx' ! j) c = n (ttest_ctxs ctx ! j) c + (if c = ?cl then 1 else 0) \<or>
               n (ttest_ctxs ctx' ! j) c = n (ttest_ctxs ctx ! j) c"
      using t_push_count by auto
    then show ?thesis using old raw[of c] by (auto split: if_splits)
  qed
  then show ?thesis by (simp add: counts_ok_def)
qed

lemma update_one_length:
  assumes u: "update_one h ctx i = Some ctx'" and len: "length (ttest_ctxs ctx) = DUDECT_TESTS h"
  shows "length (ttest_ctxs ctx') = DUDECT_TESTS h \<and> ticks ctx' = ticks ctx \<and>
         exec_times ctx' = exec_times ctx \<and> classes ctx' = classes ctx \<and>
         percentiles ctx' = percentiles ctx \<and> config ctx' = config ctx"
proof (cases "exec_times ctx ! i < 0")
  case True
  then show ?thesis using u len by (simp add: update_one_skip)
next
  case False
  then have d: "0 \<le> exec_times ctx ! i" by simp
  show ?thesis using update_one_Some_char[OF u len d] len by simp
qed

lemma update_loop_counts:
  assumes "update_loop h js ctx = Some ctx'" and "length (ttest_ctxs ctx) = DUDECT_TESTS h"
    and "counts_ok h ctx"
  shows "counts_ok h ctx' \<and> length (ttest_ctxs ctx') = DUDECT_TESTS h \<and> ticks ctx' = ticks ctx \<and>
         exec_times ctx' = exec_times ctx \<and> classes ctx' = classes ctx \<and>
         percentiles ctx' = percentiles ctx \<and> config ctx' = config ctx"
  using assms
proof (induction js arbitrary: ctx)
  case Nil
  then show ?case by simp
next
  case (Cons i js)
  from Cons.prems(1) obtain ctx1 where
    u: "update_one h ctx i = Some ctx1" and l: "update_loop h js ctx1 = Some ctx'"
    by (auto split: option.splits)
  have f: "length (ttest_ctxs ctx1) = DUDECT_TESTS h \<and> ticks ctx1 = ticks ctx \<and>
         exec_times ctx1 = exec_times ctx \<and> classes ctx1 = classes ctx \<and>
         percentiles ctx1 = percentiles ctx \<and> config ctx1 = config ctx"
    using update_one_length[OF u Cons.prems(2)] .
  have ok: "counts_ok h ctx1" using update_one_counts[OF u Cons.prems(2,3)] .
  from Cons.IH[OF l _ ok] f show ?case by simp
qed

lemma update_statistics_counts:
  assumes "update_statistics h ctx = Some ctx'" and "length (ttest_ctxs ctx) = DUDECT_TESTS h"
    and "counts_ok h ctx"
  shows "counts_ok h ctx' \<and> length (ttest_ctxs ctx') = DUDECT_TESTS h \<and> ticks ctx' = ticks ctx \<and>
         exec_times ctx' = exec_times ctx \<and> classes ctx' = classes ctx \<and>
         percentiles ctx' = percentiles ctx \<and> config ctx' = config ctx"
proof -
  have "update_loop h [10..<number_measurements (config ctx) - 1] ctx = Some ctx'"
    using assms(1) by (auto simp: update_statistics_def Let_def split: if_splits)
  from update_loop_counts[OF this assms(2,3)] show ?thesis .
qed


lemma dudect_init_ok: "allocated h (dudect_init h conf) \<and> counts_ok h (dudect_init h conf)"
  by (simp add: allocated_def counts_ok_def dudect_init_def t_init_def)

lemma counts_ok_cong:
  "ttest_ctxs ctx' = ttest_ctxs ctx \<Longrightarrow> counts_ok h ctx' = counts_ok h ctx"
  by (simp add: counts_ok_def)

lemma dudect_main_preserves:
  assumes a: "allocated h ctx" and ok: "counts_ok h ctx"
    and m: "dudect_main h ctx lab cyc = Some (ctx', v)"
  shows "allocated h ctx' \<and> counts_ok h ctx' \<and> config ctx' = config ctx"
proof -
  let ?N = "number_measurements (config ctx)"
  let ?ca = "ctx\<lparr>classes := map lab [0..<?N]\<rparr>"
  obtain ctx1 where m1: "measure cyc ?ca = Some ctx1"
    using m by (auto simp: dudect_main_def split: option.splits)
  note f1 = measure_frame[OF m1]
  have N: "1 \<le> ?N" using m1 by (auto simp: measure_def Let_def split: if_splits)
  have a1: "allocated h ctx1" using a f1 by (simp add: allocated_def)
  have ok1: "counts_ok h ctx1" using ok f1 counts_ok_cong[of ctx1 ctx h] by simp
  have c1: "config ctx1 = config ctx" using f1 by simp
  show ?thesis
  proof (cases "percentiles ctx ! (DUDECT_NUMBER_PERCENTILES h - 1) = 0")
    case True
    from dudect_main_calibrate[OF m True] m1 have p: "prepare_percentiles h ctx1 = Some ctx'"
      by auto
    have "1 \<le> number_measurements (config ctx1)" using N c1 by simp
    from prepare_percentiles_loop_Some[OF this, of h "[0..<DUDECT_NUMBER_PERCENTILES h]"] p
    have f2: "ticks ctx' = ticks ctx1 \<and> classes ctx' = classes ctx1 \<and>
           ttest_ctxs ctx' = ttest_ctxs ctx1 \<and> config ctx' = config ctx1 \<and>
           length (exec_times ctx') = length (exec_times ctx1) \<and>
           length (percentiles ctx') = length (percentiles ctx1)"
      by (auto simp: prepare_percentiles_def)
    have "allocated h ctx'" using a1 f2 by (simp add: allocated_def)
    moreover have "counts_ok h ctx'" using ok1 f2 counts_ok_cong[of ctx' ctx1 h] by simp
    ultimately show ?thesis using f2 c1 by simp
  next
    case False
    from dudect_main_accumulate[OF m False] m1 have u: "update_statistics h ctx1 = Some ctx'"
      by auto
    have len: "length (ttest_ctxs ctx1) = DUDECT_TESTS h" using a1 by (simp add: allocated_def)
    note f2 = update_statistics_counts[OF u len ok1]
    have "allocated h ctx'" using a1 f2 by (simp add: allocated_def)
    then show ?thesis using f2 c1 by simp
  qed
qed

lemma reachable_ok: "reachable h ctx \<Longrightarrow> allocated h ctx \<and> counts_ok h ctx"
proof (induction rule: reachable.induct)
  case (init conf)
  show ?case by (rule dudect_init_ok)
next
  case (step ctx lab cyc ctx' v)
  then show ?case using dudect_main_preserves by blast
qed


lemma replicate_15: "replicate 15 x = [x, x, x, x, x, x, x, x, x, x, x, x, x, x, x]"
  by (simp add: eval_nat_numeral)

lemmas run_simps =
  dudect_main_def dudect_init_def measure_def Let_def upt_rec prepare_percentiles_def
  percentile_def qsort_def cmp_def int64_def int32_def power_divide DUDECT_TESTS_def
  update_statistics_def update_one_def t_push_def t_init_def report_def max_test_def
  max_test_index_def t_compute_def meets_gate_def abs_t_def


lemma no_gate_raw:
  assumes "\<forall>i < DUDECT_TESTS h. \<not> meets_gate h ctx i"
  shows "max_test_index h ctx = 0"
  using max_test_index_cases[of h ctx] assms by auto

text \<open>
  C2, as the code has it. After a step of the accumulating phase that leaves no accumulator
  with a class-0 count above the threshold, \<open>max_test\<close> falls back on the raw accumulator,
  and the step returns not enough measurements exactly when the two counts of the raw
  accumulator together are below the threshold; the count still to go is then the
  threshold minus that total. Otherwise the verdict is read off the raw accumulator's t.
\<close>

theorem no_gate_verdict_by_raw_total:
  assumes "dudect_main h ctx lab cyc = Some (ctx', v)"
    and "percentiles ctx ! (DUDECT_NUMBER_PERCENTILES h - 1) \<noteq> 0"
    and "\<forall>i < DUDECT_TESTS h. \<not> meets_gate h ctx' i"
  shows "max_test h ctx' = ttest_ctxs ctx' ! 0 \<and>
         (v = DUDECT_NOT_ENOUGHT_MEASUREMENTS \<longleftrightarrow>
            n (ttest_ctxs ctx' ! 0) 0 + n (ttest_ctxs ctx' ! 0) 1
              < real (DUDECT_ENOUGH_MEASUREMENTS h)) \<and>
         (v = DUDECT_NOT_ENOUGHT_MEASUREMENTS \<longrightarrow>
            0 < still_to_go h ctx' \<and>
            still_to_go h ctx' = real (DUDECT_ENOUGH_MEASUREMENTS h)
               - (n (ttest_ctxs ctx' ! 0) 0 + n (ttest_ctxs ctx' ! 0) 1)) \<and>
         (v \<noteq> DUDECT_NOT_ENOUGHT_MEASUREMENTS \<longrightarrow>
            v = (if d_less (Fin 500) (abs_t ctx' 0) \<or> d_less (Fin 10) (abs_t ctx' 0)
                 then DUDECT_LEAKAGE_FOUND else DUDECT_NO_LEAKAGE_EVIDENCE_YET))"
proof -
  have r: "max_test_index h ctx' = 0" using no_gate_raw[OF assms(3)] .
  have m: "max_test h ctx' = ttest_ctxs ctx' ! 0" using r by (simp add: max_test_def)
  have v: "v = report h ctx'" using dudect_main_accumulate[OF assms(1,2)] by blast
  have a: "v = DUDECT_NOT_ENOUGHT_MEASUREMENTS \<longleftrightarrow>
            n (ttest_ctxs ctx' ! 0) 0 + n (ttest_ctxs ctx' ! 0) 1
              < real (DUDECT_ENOUGH_MEASUREMENTS h)"
    unfolding v report_not_enough m ..
  have s: "still_to_go h ctx' = real (DUDECT_ENOUGH_MEASUREMENTS h)
               - (n (ttest_ctxs ctx' ! 0) 0 + n (ttest_ctxs ctx' ! 0) 1)"
    by (simp add: still_to_go_def Let_def m)
  have b: "v = (if d_less (Fin 500) (abs_t ctx' 0) \<or> d_less (Fin 10) (abs_t ctx' 0)
                 then DUDECT_LEAKAGE_FOUND else DUDECT_NO_LEAKAGE_EVIDENCE_YET)"
    if "v \<noteq> DUDECT_NOT_ENOUGHT_MEASUREMENTS"
  proof -
    have "real (DUDECT_ENOUGH_MEASUREMENTS h) \<le> n (max_test h ctx') 0 + n (max_test h ctx') 1"
      using that a m by simp
    from report_enough[OF this] show ?thesis using v r by simp
  qed
  show ?thesis using m a s b by auto
qed

lemmas small_defs =
  h_small_def h_two_def h_three_def h_four_def h_five_def conf_small_def lab_zero_def cyc_even_def cyc_flat_def lab_split_def
  cyc_leak_def counts_def

theorem no_gate_verdict_small_run:
  "case run h_four (dudect_init h_four conf_small) [(lab_zero, cyc_even), (lab_split, cyc_leak)] of
     None \<Rightarrow> False
   | Some (ctx, vs) \<Rightarrow>
       counts ctx 0 = [2, 1, 0] \<and> counts ctx 1 = [2, 0, 0] \<and>
       real (DUDECT_ENOUGH_MEASUREMENTS h_four) = 4 \<and>
       vs = [DUDECT_NOT_ENOUGHT_MEASUREMENTS, DUDECT_LEAKAGE_FOUND]"
  by (simp add: small_defs run_simps replicate_15 eval_nat_numeral)

theorem no_gate_verdict_by_raw_total_witness:
  "case dudect_main h_four (dudect_init h_four conf_small) lab_zero cyc_even of
     None \<Rightarrow> False
   | Some (c1, v1) \<Rightarrow>
       (case dudect_main h_four c1 lab_split cyc_leak of
          None \<Rightarrow> False
        | Some (c2, v2) \<Rightarrow>
            percentiles c1 ! 0 = 3 \<and> counts c2 0 = [2, 1, 0] \<and>
            max_test h_four c2 = ttest_ctxs c2 ! 0 \<and>
            n (ttest_ctxs c2 ! 0) 0 + n (ttest_ctxs c2 ! 0) 1 = 4 \<and>
            v2 = (if d_less (Fin 500) (abs_t c2 0) \<or> d_less (Fin 10) (abs_t c2 0)
                  then DUDECT_LEAKAGE_FOUND else DUDECT_NO_LEAKAGE_EVIDENCE_YET))"
proof -
  have "case dudect_main h_four (dudect_init h_four conf_small) lab_zero cyc_even of
     None \<Rightarrow> False
   | Some (c1, v1) \<Rightarrow>
       (case dudect_main h_four c1 lab_split cyc_leak of
          None \<Rightarrow> False
        | Some (c2, v2) \<Rightarrow>
            percentiles c1 ! 0 = 3 \<and> counts c2 0 = [2, 1, 0] \<and>
            n (ttest_ctxs c2 ! 0) 0 + n (ttest_ctxs c2 ! 0) 1 = 4 \<and>
            v2 \<noteq> DUDECT_NOT_ENOUGHT_MEASUREMENTS)"
    by (simp add: small_defs run_simps replicate_15 eval_nat_numeral)
  then obtain c1 v1 c2 v2 where
    s1: "dudect_main h_four (dudect_init h_four conf_small) lab_zero cyc_even = Some (c1, v1)"
    and s2: "dudect_main h_four c1 lab_split cyc_leak = Some (c2, v2)"
    and e: "percentiles c1 ! 0 = 3" "counts c2 0 = [2, 1, 0]"
      "n (ttest_ctxs c2 ! 0) 0 + n (ttest_ctxs c2 ! 0) 1 = 4"
      "v2 \<noteq> DUDECT_NOT_ENOUGHT_MEASUREMENTS"
    by (auto split: option.splits)
  have p: "percentiles c1 ! (DUDECT_NUMBER_PERCENTILES h_four - 1) \<noteq> 0"
    using e(1) by (simp add: h_four_def)
  have "length (counts c2 0) = 3" unfolding e(2) by simp
  then have l: "length (ttest_ctxs c2) = 3" by (simp add: counts_def)
  have g: "\<forall>i < DUDECT_TESTS h_four. \<not> meets_gate h_four c2 i"
  proof (intro allI impI)
    fix i assume "i < DUDECT_TESTS h_four"
    then have "i < 3" by (simp add: DUDECT_TESTS_def h_four_def)
    then have "counts c2 0 ! i \<le> 4" unfolding e(2) by (cases i rule: nat.exhaust; simp add: less_Suc_eq nth_Cons')
    moreover have "counts c2 0 ! i = n (ttest_ctxs c2 ! i) 0"
      using \<open>i < 3\<close> l by (simp add: counts_def)
    ultimately show "\<not> meets_gate h_four c2 i" by (simp add: meets_gate_def h_four_def)
  qed
  from no_gate_verdict_by_raw_total[OF s2 p g] e
  show ?thesis by (simp add: s1 s2)
qed

text \<open>
  C3, as the code has it. The boundary of the gate of \<open>report\<close> lies on the total count of
  the accumulator it reads. After a step of the accumulating phase from a reachable
  context: when the two counts of the raw accumulator add up to exactly the threshold minus
  one, the verdict is not enough measurements; and as soon as the class-0 count of some
  accumulator has reached the threshold, the step returns a real verdict.
\<close>

theorem gate_boundary_on_total:
  assumes "reachable h ctx"
    and "percentiles ctx ! (DUDECT_NUMBER_PERCENTILES h - 1) \<noteq> 0"
    and "dudect_main h ctx lab cyc = Some (ctx', v)"
  shows "(n (ttest_ctxs ctx' ! 0) 0 + n (ttest_ctxs ctx' ! 0) 1
            = real (DUDECT_ENOUGH_MEASUREMENTS h) - 1 \<longrightarrow>
          v = DUDECT_NOT_ENOUGHT_MEASUREMENTS) \<and>
         (\<forall>i < DUDECT_TESTS h.
            real (DUDECT_ENOUGH_MEASUREMENTS h) \<le> n (ttest_ctxs ctx' ! i) 0 \<longrightarrow>
            v \<noteq> DUDECT_NOT_ENOUGHT_MEASUREMENTS)"
proof -
  let ?E = "real (DUDECT_ENOUGH_MEASUREMENTS h)"
  let ?raw = "ttest_ctxs ctx' ! 0"
  have "reachable h ctx'" using assms(1,3) by (rule reachable.step)
  then have ok: "counts_ok h ctx'" using reachable_ok by blast
  have v: "v = report h ctx'" using dudect_main_accumulate[OF assms(3,2)] by blast
  have T: "0 < DUDECT_TESTS h" by (simp add: DUDECT_TESTS_def)
  have nn: "0 \<le> n (ttest_ctxs ctx' ! i) c" "n (ttest_ctxs ctx' ! i) c \<le> n ?raw c"
    if "i < DUDECT_TESTS h" for i c
    using ok that by (simp_all add: counts_ok_def)
  have below: "v = DUDECT_NOT_ENOUGHT_MEASUREMENTS" if t: "n ?raw 0 + n ?raw 1 = ?E - 1"
  proof -
    have "\<not> meets_gate h ctx' i" if "i < DUDECT_TESTS h" for i
      using nn(2)[OF that, of 0] nn(1)[OF T, of 1] t by (simp add: meets_gate_def)
    then have "max_test_index h ctx' = 0" using no_gate_raw by blast
    then have "max_test h ctx' = ?raw" by (simp add: max_test_def)
    then show ?thesis unfolding v report_not_enough using t by simp
  qed
  have reached: "v \<noteq> DUDECT_NOT_ENOUGHT_MEASUREMENTS"
    if i: "i < DUDECT_TESTS h" and e: "?E \<le> n (ttest_ctxs ctx' ! i) 0" for i
  proof -
    let ?r = "max_test_index h ctx'"
    have raw: "?E \<le> n ?raw 0" using nn(2)[OF i, of 0] e by simp
    have "?r = 0 \<or> (?r < DUDECT_TESTS h \<and> meets_gate h ctx' ?r)"
      using max_test_index_cases[of h ctx'] by blast
    then have "?E \<le> n (ttest_ctxs ctx' ! ?r) 0 \<and> ?r < DUDECT_TESTS h"
      using raw T by (auto simp: meets_gate_def)
    then have "?E \<le> n (max_test h ctx') 0 + n (max_test h ctx') 1"
      using nn(1)[of ?r 1] by (simp add: max_test_def)
    then show ?thesis unfolding v report_not_enough by simp
  qed
  show ?thesis using below reached by blast
qed

theorem gate_boundary_small_run:
  "case run h_three (dudect_init h_three conf_small) [(lab_zero, cyc_even), (lab_split, cyc_leak)] of
     None \<Rightarrow> False
   | Some (ctx, vs) \<Rightarrow>
       counts ctx 0 = [2, 1, 0] \<and> counts ctx 1 = [2, 0, 0] \<and>
       real (DUDECT_ENOUGH_MEASUREMENTS h_three) - 1 = 2 \<and>
       vs = [DUDECT_NOT_ENOUGHT_MEASUREMENTS, DUDECT_LEAKAGE_FOUND]"
  by (simp add: small_defs run_simps replicate_15 eval_nat_numeral)

theorem gate_boundary_on_total_witness:
  "(case dudect_main h_five (dudect_init h_five conf_small) lab_zero cyc_even of
     None \<Rightarrow> False
   | Some (c1, v1) \<Rightarrow>
       (case dudect_main h_five c1 lab_split cyc_leak of
          None \<Rightarrow> False
        | Some (c2, v2) \<Rightarrow>
            reachable h_five c1 \<and> percentiles c1 ! 0 = 3 \<and>
            n (ttest_ctxs c2 ! 0) 0 + n (ttest_ctxs c2 ! 0) 1 = 4 \<and>
            v2 = DUDECT_NOT_ENOUGHT_MEASUREMENTS)) \<and>
   (case dudect_main h_two (dudect_init h_two conf_small) lab_zero cyc_even of
     None \<Rightarrow> False
   | Some (c1, v1) \<Rightarrow>
       (case dudect_main h_two c1 lab_split cyc_leak of
          None \<Rightarrow> False
        | Some (c2, v2) \<Rightarrow>
            reachable h_two c1 \<and> percentiles c1 ! 0 = 3 \<and>
            n (ttest_ctxs c2 ! 0) 0 = 2 \<and> v2 \<noteq> DUDECT_NOT_ENOUGHT_MEASUREMENTS))"
proof -
  have "case dudect_main h_five (dudect_init h_five conf_small) lab_zero cyc_even of
     None \<Rightarrow> False
   | Some (c1, v1) \<Rightarrow>
       (case dudect_main h_five c1 lab_split cyc_leak of
          None \<Rightarrow> False
        | Some (c2, v2) \<Rightarrow>
            percentiles c1 ! 0 = 3 \<and> n (ttest_ctxs c2 ! 0) 0 + n (ttest_ctxs c2 ! 0) 1 = 4)"
    by (simp add: small_defs run_simps replicate_15 eval_nat_numeral)
  then obtain c1 v1 c2 v2 where
    s1: "dudect_main h_five (dudect_init h_five conf_small) lab_zero cyc_even = Some (c1, v1)"
    and s2: "dudect_main h_five c1 lab_split cyc_leak = Some (c2, v2)"
    and e: "percentiles c1 ! 0 = 3" "n (ttest_ctxs c2 ! 0) 0 + n (ttest_ctxs c2 ! 0) 1 = 4"
    by (auto split: option.splits)
  have r: "reachable h_five c1" using reachable.step[OF reachable.init s1] .
  have p: "percentiles c1 ! (DUDECT_NUMBER_PERCENTILES h_five - 1) \<noteq> 0"
    using e(1) by (simp add: h_five_def)
  have t: "n (ttest_ctxs c2 ! 0) 0 + n (ttest_ctxs c2 ! 0) 1
             = real (DUDECT_ENOUGH_MEASUREMENTS h_five) - 1"
    using e(2) by (simp add: h_five_def)
  have five: "case dudect_main h_five (dudect_init h_five conf_small) lab_zero cyc_even of
     None \<Rightarrow> False
   | Some (c1, v1) \<Rightarrow>
       (case dudect_main h_five c1 lab_split cyc_leak of
          None \<Rightarrow> False
        | Some (c2, v2) \<Rightarrow>
            reachable h_five c1 \<and> percentiles c1 ! 0 = 3 \<and>
            n (ttest_ctxs c2 ! 0) 0 + n (ttest_ctxs c2 ! 0) 1 = 4 \<and>
            v2 = DUDECT_NOT_ENOUGHT_MEASUREMENTS)"
  proof -
    have "v2 = DUDECT_NOT_ENOUGHT_MEASUREMENTS"
      using gate_boundary_on_total[OF r p s2] t by blast
    then show ?thesis using e r by (simp add: s1 s2)
  qed
  have "case dudect_main h_two (dudect_init h_two conf_small) lab_zero cyc_even of
     None \<Rightarrow> False
   | Some (c1, v1) \<Rightarrow>
       (case dudect_main h_two c1 lab_split cyc_leak of
          None \<Rightarrow> False
        | Some (c2, v2) \<Rightarrow>
            percentiles c1 ! 0 = 3 \<and> n (ttest_ctxs c2 ! 0) 0 = 2)"
    by (simp add: small_defs run_simps replicate_15 eval_nat_numeral)
  then obtain d1 w1 d2 w2 where
    u1: "dudect_main h_two (dudect_init h_two conf_small) lab_zero cyc_even = Some (d1, w1)"
    and u2: "dudect_main h_two d1 lab_split cyc_leak = Some (d2, w2)"
    and f: "percentiles d1 ! 0 = 3" "n (ttest_ctxs d2 ! 0) 0 = 2"
    by (auto split: option.splits)
  have r2: "reachable h_two d1" using reachable.step[OF reachable.init u1] .
  have p2: "percentiles d1 ! (DUDECT_NUMBER_PERCENTILES h_two - 1) \<noteq> 0"
    using f(1) by (simp add: h_two_def)
  have g: "0 < DUDECT_TESTS h_two \<and> real (DUDECT_ENOUGH_MEASUREMENTS h_two) \<le> n (ttest_ctxs d2 ! 0) 0"
    using f(2) by (simp add: h_two_def DUDECT_TESTS_def)
  have two: "case dudect_main h_two (dudect_init h_two conf_small) lab_zero cyc_even of
     None \<Rightarrow> False
   | Some (c1, v1) \<Rightarrow>
       (case dudect_main h_two c1 lab_split cyc_leak of
          None \<Rightarrow> False
        | Some (c2, v2) \<Rightarrow>
            reachable h_two c1 \<and> percentiles c1 ! 0 = 3 \<and>
            n (ttest_ctxs c2 ! 0) 0 = 2 \<and> v2 \<noteq> DUDECT_NOT_ENOUGHT_MEASUREMENTS)"
  proof -
    have "w2 \<noteq> DUDECT_NOT_ENOUGHT_MEASUREMENTS"
      using gate_boundary_on_total[OF r2 p2 u2] g by blast
    then show ?thesis using f r2 by (simp add: u1 u2)
  qed
  show ?thesis using five two by (rule conjI)
qed

subsection \<open>Accumulators with few values\<close>

lemma d_add_NaN_right: "d_add x NaN = NaN"
  by (cases x) simp_all

lemma d_div_NaN_right: "d_div x NaN = NaN"
  by (cases x) simp_all

lemma pushed_init: "pushed t_init"
proof -
  have "welford_inv t_init cls []" for cls by (simp add: welford_inv_def t_init_def)
  then show ?thesis unfolding pushed_def by blast
qed

lemma pushed_push:
  assumes "pushed t" and "t_push t x cls = Some t'"
  shows "pushed t'"
  unfolding pushed_def
proof
  fix c
  obtain xs where xs: "welford_inv t c xs" using assms(1) unfolding pushed_def by blast
  show "\<exists>ys. welford_inv t' c ys"
  proof (cases "c = cls")
    case True
    then show ?thesis using welford_inv_push[OF _ assms(2)] xs by blast
  next
    case False
    then show ?thesis using t_push_other[OF assms(2)] xs by blast
  qed
qed

lemma pushed_few:
  assumes "pushed t" and "n t cls \<le> 1"
  shows "(n t cls = 0 \<or> n t cls = 1) \<and> m2 t cls = 0"
proof -
  obtain xs where xs: "welford_inv t cls xs" using assms(1) unfolding pushed_def by blast
  then have "real (length xs) \<le> 1" using assms(2) by (simp add: welford_inv_def)
  then have "length xs \<le> 1" by simp
  then consider "xs = []" | x where "xs = [x]"
    by (cases xs) auto
  then show ?thesis
  proof cases
    case 1
    then show ?thesis using xs by (simp add: welford_inv_def)
  next
    case 2
    then show ?thesis using xs by (simp add: welford_inv_def)
  qed
qed

lemma t_compute_few:
  assumes "pushed t" and "n t 0 \<le> 1 \<or> n t 1 \<le> 1"
  shows "t_compute t = NaN"
proof -
  have var: "d_div (d_div (Fin (m2 t c)) (Fin (n t c - 1))) (Fin (n t c)) = NaN" if "n t c \<le> 1" for c
    using pushed_few[OF assms(1) that] by auto
  from assms(2) show ?thesis
  proof
    assume "n t 0 \<le> 1"
    then show ?thesis using var[of 0] by (simp add: t_compute_def Let_def d_div_NaN_right)
  next
    assume "n t 1 \<le> 1"
    then show ?thesis using var[of 1]
      by (simp add: t_compute_def Let_def d_div_NaN_right d_add_NaN_right)
  qed
qed

lemma update_one_each:
  assumes u: "update_one h ctx i = Some ctx'" and len: "length (ttest_ctxs ctx) = DUDECT_TESTS h"
    and j: "j < DUDECT_TESTS h"
  shows "(\<exists>x c. t_push (ttest_ctxs ctx ! j) x c = Some (ttest_ctxs ctx' ! j)) \<or>
         ttest_ctxs ctx' ! j = ttest_ctxs ctx ! j"
proof (cases "exec_times ctx ! i < 0")
  case True
  then show ?thesis using u by (simp add: update_one_skip)
next
  case False
  let ?P = "DUDECT_NUMBER_PERCENTILES h"
  from False have d: "0 \<le> exec_times ctx ! i" by simp
  note ch = update_one_Some_char[OF u len d]
  have "j = 0 \<or> (\<exists>k. j = k + 1 \<and> k < ?P) \<or> j = 1 + ?P"
    using j unfolding DUDECT_TESTS_def by (cases j) (auto simp: less_Suc_eq)
  then consider "j = 0" | k where "j = k + 1" "k < ?P" | "j = 1 + ?P"
    by blast
  then show ?thesis
  proof cases
    case 1
    then show ?thesis using ch by blast
  next
    case 2
    then show ?thesis using ch by meson
  next
    case 3
    then show ?thesis using ch by meson
  qed
qed

lemma update_loop_pushed:
  assumes "update_loop h js ctx = Some ctx'" and "length (ttest_ctxs ctx) = DUDECT_TESTS h"
    and "\<forall>j < DUDECT_TESTS h. pushed (ttest_ctxs ctx ! j)"
  shows "\<forall>j < DUDECT_TESTS h. pushed (ttest_ctxs ctx' ! j)"
  using assms
proof (induction js arbitrary: ctx)
  case Nil
  then show ?case by simp
next
  case (Cons i js)
  from Cons.prems(1) obtain ctx1 where
    u: "update_one h ctx i = Some ctx1" and l: "update_loop h js ctx1 = Some ctx'"
    by (auto split: option.splits)
  have len1: "length (ttest_ctxs ctx1) = DUDECT_TESTS h"
    using update_one_length[OF u Cons.prems(2)] by simp
  have "\<forall>j < DUDECT_TESTS h. pushed (ttest_ctxs ctx1 ! j)"
  proof (intro allI impI)
    fix j assume j: "j < DUDECT_TESTS h"
    then have "pushed (ttest_ctxs ctx ! j)" using Cons.prems(3) by blast
    then show "pushed (ttest_ctxs ctx1 ! j)"
      using update_one_each[OF u Cons.prems(2) j] pushed_push by auto
  qed
  from Cons.IH[OF l len1 this] show ?case .
qed

lemma dudect_main_pushed:
  assumes a: "allocated h ctx" and ok: "\<forall>j < DUDECT_TESTS h. pushed (ttest_ctxs ctx ! j)"
    and m: "dudect_main h ctx lab cyc = Some (ctx', v)"
  shows "\<forall>j < DUDECT_TESTS h. pushed (ttest_ctxs ctx' ! j)"
proof -
  let ?N = "number_measurements (config ctx)"
  let ?ca = "ctx\<lparr>classes := map lab [0..<?N]\<rparr>"
  obtain ctx1 where m1: "measure cyc ?ca = Some ctx1"
    using m by (auto simp: dudect_main_def split: option.splits)
  note f1 = measure_frame[OF m1]
  have N: "1 \<le> number_measurements (config ctx1)"
    using m1 f1 by (auto simp: measure_def Let_def split: if_splits)
  have t1: "ttest_ctxs ctx1 = ttest_ctxs ctx" using f1 by simp
  show ?thesis
  proof (cases "percentiles ctx ! (DUDECT_NUMBER_PERCENTILES h - 1) = 0")
    case True
    from dudect_main_calibrate[OF m True] m1 have p: "prepare_percentiles h ctx1 = Some ctx'"
      by auto
    from prepare_percentiles_loop_Some[OF N, of h "[0..<DUDECT_NUMBER_PERCENTILES h]"] p
    have "ttest_ctxs ctx' = ttest_ctxs ctx1" by (auto simp: prepare_percentiles_def)
    then show ?thesis using ok t1 by simp
  next
    case False
    from dudect_main_accumulate[OF m False] m1 have u: "update_statistics h ctx1 = Some ctx'"
      by auto
    then have l: "update_loop h [10..<number_measurements (config ctx1) - 1] ctx1 = Some ctx'"
      by (auto simp: update_statistics_def Let_def split: if_splits)
    have len: "length (ttest_ctxs ctx1) = DUDECT_TESTS h" using a t1 by (simp add: allocated_def)
    show ?thesis using update_loop_pushed[OF l len] ok t1 by simp
  qed
qed

lemma reachable_pushed:
  "reachable h ctx \<Longrightarrow> \<forall>j < DUDECT_TESTS h. pushed (ttest_ctxs ctx ! j)"
proof (induction rule: reachable.induct)
  case (init conf)
  show ?case by (simp add: dudect_init_def pushed_init)
next
  case (step ctx lab cyc ctx' v)
  then show ?case using dudect_main_pushed reachable_ok by blast
qed


lemma max_test_index_bound: "max_test_index h ctx < DUDECT_TESTS h"
  using max_test_index_cases[of h ctx] by (auto simp: DUDECT_TESTS_def)

text \<open>
  C8, as the code has it. \<open>t_compute\<close> is evaluated on accumulators with a class count of
  one or less: \<open>report\<close> evaluates it on the accumulator that \<open>max_test\<close> returns before
  its own test, and the gates look at the class-0 count and at the total only. After a step
  of the accumulating phase from a reachable context, if a class count of that accumulator
  is one or less, its t statistic is NaN; no comparison with NaN holds, so the step returns
  not enough measurements when the total is below the threshold and no leakage evidence yet
  otherwise, and never leakage found.
\<close>

theorem few_values_give_nan:
  assumes "reachable h ctx"
    and "percentiles ctx ! (DUDECT_NUMBER_PERCENTILES h - 1) \<noteq> 0"
    and "dudect_main h ctx lab cyc = Some (ctx', v)"
    and "n (max_test h ctx') 0 \<le> 1 \<or> n (max_test h ctx') 1 \<le> 1"
  shows "t_compute (max_test h ctx') = NaN \<and>
         v = (if n (max_test h ctx') 0 + n (max_test h ctx') 1
                   < real (DUDECT_ENOUGH_MEASUREMENTS h)
              then DUDECT_NOT_ENOUGHT_MEASUREMENTS else DUDECT_NO_LEAKAGE_EVIDENCE_YET)"
proof -
  have "reachable h ctx'" using assms(1,3) by (rule reachable.step)
  then have "pushed (max_test h ctx')"
    using reachable_pushed max_test_index_bound unfolding max_test_def by blast
  then have t: "t_compute (max_test h ctx') = NaN" using assms(4) by (rule t_compute_few)
  have "v = report h ctx'" using dudect_main_accumulate[OF assms(3,2)] by blast
  then show ?thesis using t by (simp add: report_def Let_def)
qed

theorem few_values_small_run:
  "case run h_small (dudect_init h_small conf_small) [(lab_zero, cyc_even), (lab_zero, cyc_leak)] of
     None \<Rightarrow> False
   | Some (ctx, vs) \<Rightarrow>
       counts ctx 0 = [4, 1, 0] \<and> counts ctx 1 = [0, 0, 0] \<and>
       meets_gate h_small ctx 0 \<and> max_test_index h_small ctx = 0 \<and>
       t_compute (max_test h_small ctx) = NaN \<and>
       vs = [DUDECT_NOT_ENOUGHT_MEASUREMENTS, DUDECT_NO_LEAKAGE_EVIDENCE_YET]"
  by (simp add: small_defs run_simps replicate_15 eval_nat_numeral)

theorem few_values_give_nan_witness:
  "case dudect_main h_small (dudect_init h_small conf_small) lab_zero cyc_even of
     None \<Rightarrow> False
   | Some (c1, v1) \<Rightarrow>
       (case dudect_main h_small c1 lab_zero cyc_leak of
          None \<Rightarrow> False
        | Some (c2, v2) \<Rightarrow>
            reachable h_small c1 \<and> percentiles c1 ! 0 = 3 \<and>
            n (max_test h_small c2) 0 = 4 \<and> n (max_test h_small c2) 1 = 0 \<and>
            t_compute (max_test h_small c2) = NaN \<and>
            v2 = DUDECT_NO_LEAKAGE_EVIDENCE_YET)"
proof -
  have "case dudect_main h_small (dudect_init h_small conf_small) lab_zero cyc_even of
     None \<Rightarrow> False
   | Some (c1, v1) \<Rightarrow>
       (case dudect_main h_small c1 lab_zero cyc_leak of
          None \<Rightarrow> False
        | Some (c2, v2) \<Rightarrow>
            percentiles c1 ! 0 = 3 \<and>
            n (max_test h_small c2) 0 = 4 \<and> n (max_test h_small c2) 1 = 0)"
    by (simp add: small_defs run_simps replicate_15 eval_nat_numeral)
  then obtain c1 v1 c2 v2 where
    s1: "dudect_main h_small (dudect_init h_small conf_small) lab_zero cyc_even = Some (c1, v1)"
    and s2: "dudect_main h_small c1 lab_zero cyc_leak = Some (c2, v2)"
    and e: "percentiles c1 ! 0 = 3" "n (max_test h_small c2) 0 = 4" "n (max_test h_small c2) 1 = 0"
    by (auto split: option.splits)
  have r: "reachable h_small c1" using reachable.step[OF reachable.init s1] .
  have p: "percentiles c1 ! (DUDECT_NUMBER_PERCENTILES h_small - 1) \<noteq> 0"
    using e(1) by (simp add: h_small_def)
  have f: "n (max_test h_small c2) 0 \<le> 1 \<or> n (max_test h_small c2) 1 \<le> 1"
    using e(3) by simp
  have "t_compute (max_test h_small c2) = NaN \<and> v2 = DUDECT_NO_LEAKAGE_EVIDENCE_YET"
    using few_values_give_nan[OF r p s2 f] e by (simp add: h_small_def)
  then show ?thesis using e r by (simp add: s1 s2)
qed

subsection \<open>The first call and the thresholds\<close>

lemma crop_loop_frame:
  "crop_loop d cls js ctx = Some ctx' \<Longrightarrow>
   percentiles ctx' = percentiles ctx \<and> exec_times ctx' = exec_times ctx \<and>
   classes ctx' = classes ctx \<and> ticks ctx' = ticks ctx \<and> config ctx' = config ctx"
proof (induction js arbitrary: ctx)
  case Nil
  then show ?case by simp
next
  case (Cons j js)
  show ?case
  proof (cases "d < percentiles ctx ! j")
    case False
    then show ?thesis using Cons by simp
  next
    case True
    then obtain t where
      "crop_loop d cls js (ctx\<lparr>ttest_ctxs := (ttest_ctxs ctx)[j + 1 := t]\<rparr>) = Some ctx'"
      using Cons.prems by (auto split: option.splits)
    from Cons.IH[OF this] show ?thesis by simp
  qed
qed

lemma update_one_frame:
  assumes "update_one h ctx i = Some ctx'"
  shows "percentiles ctx' = percentiles ctx \<and> exec_times ctx' = exec_times ctx \<and>
   classes ctx' = classes ctx \<and> ticks ctx' = ticks ctx \<and> config ctx' = config ctx"
proof (cases "exec_times ctx ! i < 0")
  case True
  then show ?thesis using assms by (simp add: update_one_skip)
next
  case False
  then obtain t0 ctx1 where
    c: "crop_loop (exec_times ctx ! i) (classes ctx ! i) [0..<DUDECT_NUMBER_PERCENTILES h]
          (ctx\<lparr>ttest_ctxs := (ttest_ctxs ctx)[0 := t0]\<rparr>) = Some ctx1"
    and r: "ctx' = ctx1 \<or> (\<exists>t2. ctx' = ctx1\<lparr>ttest_ctxs := (ttest_ctxs ctx1)[1 + DUDECT_NUMBER_PERCENTILES h := t2]\<rparr>)"
    using assms by (auto simp: update_one_def Let_def split: option.splits if_splits)
  from crop_loop_frame[OF c] r show ?thesis by auto
qed

lemma update_loop_frame:
  "update_loop h js ctx = Some ctx' \<Longrightarrow>
   percentiles ctx' = percentiles ctx \<and> exec_times ctx' = exec_times ctx \<and>
   classes ctx' = classes ctx \<and> ticks ctx' = ticks ctx \<and> config ctx' = config ctx"
proof (induction js arbitrary: ctx)
  case Nil
  then show ?case by simp
next
  case (Cons i js)
  from Cons.prems obtain ctx1 where
    u: "update_one h ctx i = Some ctx1" and l: "update_loop h js ctx1 = Some ctx'"
    by (auto split: option.splits)
  from Cons.IH[OF l] update_one_frame[OF u] show ?case by simp
qed

lemma accumulate_keeps_percentiles:
  assumes "dudect_main h ctx lab cyc = Some (ctx', v)"
    and "percentiles ctx ! (DUDECT_NUMBER_PERCENTILES h - 1) \<noteq> 0"
  shows "percentiles ctx' = percentiles ctx"
proof -
  from dudect_main_accumulate[OF assms] obtain ctx1 where
    m: "measure cyc (ctx\<lparr>classes := map lab [0..<number_measurements (config ctx)]\<rparr>) = Some ctx1"
    and u: "update_statistics h ctx1 = Some ctx'"
    by blast
  have "update_loop h [10..<number_measurements (config ctx1) - 1] ctx1 = Some ctx'"
    using u by (auto simp: update_statistics_def Let_def split: if_splits)
  from update_loop_frame[OF this] measure_frame[OF m] show ?thesis by simp
qed

lemma run_keeps_percentiles:
  assumes "run h ctx bs = Some (ctx', vs)"
    and "percentiles ctx ! (DUDECT_NUMBER_PERCENTILES h - 1) \<noteq> 0"
  shows "percentiles ctx' = percentiles ctx"
  using assms
proof (induction bs arbitrary: ctx vs)
  case Nil
  then show ?case by simp
next
  case (Cons b bs)
  obtain lab cyc where b: "b = (lab, cyc)" by (cases b)
  from Cons.prems(1) b obtain ctx1 v ws where
    s: "dudect_main h ctx lab cyc = Some (ctx1, v)" and r: "run h ctx1 bs = Some (ctx', ws)"
    by (auto split: option.splits)
  have p: "percentiles ctx1 = percentiles ctx"
    using accumulate_keeps_percentiles[OF s Cons.prems(2)] .
  from Cons.IH[OF r] p Cons.prems(2) show ?case by simp
qed

lemma first_call:
  assumes N: "1 \<le> number_measurements conf" and P: "1 \<le> DUDECT_NUMBER_PERCENTILES h"
  shows "\<exists>ctx1. dudect_main h (dudect_init h conf) lab cyc = Some (ctx1, DUDECT_NOT_ENOUGHT_MEASUREMENTS) \<and>
           ttest_ctxs ctx1 = ttest_ctxs (dudect_init h conf)"
proof -
  let ?i = "dudect_init h conf"
  let ?ca = "?i\<lparr>classes := map lab [0..<number_measurements (config ?i)]\<rparr>"
  have "0 < number_measurements (config ?ca)" using N by (simp add: dudect_init_def)
  from measure_Some[OF this] obtain c1 where m: "measure cyc ?ca = Some c1" by blast
  note f = measure_frame[OF m]
  have z: "percentiles c1 ! (DUDECT_NUMBER_PERCENTILES h - 1) = 0"
    using f P by (simp add: dudect_init_def)
  have "1 \<le> number_measurements (config c1)" using f N by (simp add: dudect_init_def)
  from prepare_percentiles_loop_Some[OF this, of h "[0..<DUDECT_NUMBER_PERCENTILES h]"]
  obtain c2 where p: "prepare_percentiles h c1 = Some c2" and t: "ttest_ctxs c2 = ttest_ctxs c1"
    unfolding prepare_percentiles_def by blast
  have "dudect_main h ?i lab cyc = Some (c2, DUDECT_NOT_ENOUGHT_MEASUREMENTS)"
    using m z p P by (simp add: dudect_main_def Let_def)
  then show ?thesis using t f by simp
qed

text \<open>
  C4, as the code has it. On a context fresh from \<open>dudect_init\<close>, with at least one
  measurement and one percentile, the first call of \<open>dudect_main\<close> returns not enough
  measurements whatever the labels and the readings of the counter are, and leaves every
  accumulator as it was: it only calibrates. If the last threshold it stored is not zero,
  no later call of \<open>dudect_main\<close> on the context changes the thresholds.
\<close>

theorem first_call_calibrates_then_frozen:
  assumes "1 \<le> number_measurements conf" and "1 \<le> DUDECT_NUMBER_PERCENTILES h"
  shows "\<exists>ctx1. dudect_main h (dudect_init h conf) lab cyc
                  = Some (ctx1, DUDECT_NOT_ENOUGHT_MEASUREMENTS) \<and>
           ttest_ctxs ctx1 = ttest_ctxs (dudect_init h conf) \<and>
           (percentiles ctx1 ! (DUDECT_NUMBER_PERCENTILES h - 1) \<noteq> 0 \<longrightarrow>
              (\<forall>bs ctx' vs. run h ctx1 bs = Some (ctx', vs) \<longrightarrow>
                 percentiles ctx' = percentiles ctx1))"
  using first_call[OF assms] run_keeps_percentiles by blast

theorem first_call_small_run:
  "case run h_small (dudect_init h_small conf_small) [(lab_zero, cyc_flat)] of
     None \<Rightarrow> False
   | Some (c1, vs1) \<Rightarrow>
       (case run h_small c1 [(lab_zero, cyc_even)] of
          None \<Rightarrow> False
        | Some (c2, vs2) \<Rightarrow>
            vs1 = [DUDECT_NOT_ENOUGHT_MEASUREMENTS] \<and> percentiles c1 = [0] \<and>
            vs2 = [DUDECT_NOT_ENOUGHT_MEASUREMENTS] \<and> percentiles c2 = [3] \<and>
            counts c2 0 = [0, 0, 0] \<and> counts c2 1 = [0, 0, 0])"
  by (simp add: small_defs run_simps replicate_15 eval_nat_numeral)

theorem first_call_calibrates_then_frozen_witness:
  "\<exists>ctx1. dudect_main h_small (dudect_init h_small conf_small) lab_zero cyc_even
                  = Some (ctx1, DUDECT_NOT_ENOUGHT_MEASUREMENTS) \<and>
           ttest_ctxs ctx1 = ttest_ctxs (dudect_init h_small conf_small) \<and>
           percentiles ctx1 ! 0 = 3 \<and>
           (\<forall>bs ctx' vs. run h_small ctx1 bs = Some (ctx', vs) \<longrightarrow>
                 percentiles ctx' = percentiles ctx1)"
proof -
  have N: "1 \<le> number_measurements conf_small" by (simp add: conf_small_def)
  have P: "1 \<le> DUDECT_NUMBER_PERCENTILES h_small" by (simp add: h_small_def)
  from first_call_calibrates_then_frozen[OF N P, of lab_zero cyc_even] obtain ctx1 where
    s: "dudect_main h_small (dudect_init h_small conf_small) lab_zero cyc_even
          = Some (ctx1, DUDECT_NOT_ENOUGHT_MEASUREMENTS)"
    and t: "ttest_ctxs ctx1 = ttest_ctxs (dudect_init h_small conf_small)"
    and f: "percentiles ctx1 ! (DUDECT_NUMBER_PERCENTILES h_small - 1) \<noteq> 0 \<longrightarrow>
              (\<forall>bs ctx' vs. run h_small ctx1 bs = Some (ctx', vs) \<longrightarrow>
                 percentiles ctx' = percentiles ctx1)"
    by blast
  have "case dudect_main h_small (dudect_init h_small conf_small) lab_zero cyc_even of
          None \<Rightarrow> False | Some (c, v) \<Rightarrow> percentiles c ! 0 = 3"
    by (simp add: small_defs run_simps replicate_15 eval_nat_numeral)
  then have e: "percentiles ctx1 ! 0 = 3" using s by simp
  then have "percentiles ctx1 ! (DUDECT_NUMBER_PERCENTILES h_small - 1) \<noteq> 0"
    by (simp add: h_small_def)
  then show ?thesis using s t f e by blast
qed

subsection \<open>The second-order test\<close>

lemma update_one_raw_mono:
  assumes u: "update_one h ctx i = Some ctx'" and len: "length (ttest_ctxs ctx) = DUDECT_TESTS h"
  shows "n (ttest_ctxs ctx ! 0) c \<le> n (ttest_ctxs ctx' ! 0) c"
proof -
  have "0 < DUDECT_TESTS h" by (simp add: DUDECT_TESTS_def)
  from update_one_each[OF u len this] show ?thesis using t_push_count by fastforce
qed

lemma update_loop_raw_mono:
  assumes "update_loop h js ctx = Some ctx'" and "length (ttest_ctxs ctx) = DUDECT_TESTS h"
  shows "n (ttest_ctxs ctx ! 0) c \<le> n (ttest_ctxs ctx' ! 0) c"
  using assms
proof (induction js arbitrary: ctx)
  case Nil
  then show ?case by simp
next
  case (Cons i js)
  from Cons.prems(1) obtain ctx1 where
    u: "update_one h ctx i = Some ctx1" and l: "update_loop h js ctx1 = Some ctx'"
    by (auto split: option.splits)
  have len1: "length (ttest_ctxs ctx1) = DUDECT_TESTS h"
    using update_one_length[OF u Cons.prems(2)] by simp
  from Cons.IH[OF l len1] update_one_raw_mono[OF u Cons.prems(2), of c] show ?case by simp
qed

lemma update_one_second_order:
  assumes u: "update_one h ctx i = Some ctx'" and len: "length (ttest_ctxs ctx) = DUDECT_TESTS h"
    and le: "n (ttest_ctxs ctx' ! 0) 0 \<le> 10000"
  shows "ttest_ctxs ctx' ! (1 + DUDECT_NUMBER_PERCENTILES h)
         = ttest_ctxs ctx ! (1 + DUDECT_NUMBER_PERCENTILES h)"
proof (cases "exec_times ctx ! i < 0")
  case True
  then show ?thesis using u by (simp add: update_one_skip)
next
  case False
  then have d: "0 \<le> exec_times ctx ! i" by simp
  show ?thesis using update_one_Some_char[OF u len d] le by auto
qed

lemma update_loop_second_order:
  assumes "update_loop h js ctx = Some ctx'" and "length (ttest_ctxs ctx) = DUDECT_TESTS h"
    and "n (ttest_ctxs ctx' ! 0) 0 \<le> 10000"
  shows "ttest_ctxs ctx' ! (1 + DUDECT_NUMBER_PERCENTILES h)
         = ttest_ctxs ctx ! (1 + DUDECT_NUMBER_PERCENTILES h)"
  using assms
proof (induction js arbitrary: ctx)
  case Nil
  then show ?case by simp
next
  case (Cons i js)
  from Cons.prems(1) obtain ctx1 where
    u: "update_one h ctx i = Some ctx1" and l: "update_loop h js ctx1 = Some ctx'"
    by (auto split: option.splits)
  have len1: "length (ttest_ctxs ctx1) = DUDECT_TESTS h"
    using update_one_length[OF u Cons.prems(2)] by simp
  have "n (ttest_ctxs ctx1 ! 0) 0 \<le> 10000"
    using update_loop_raw_mono[OF l len1, of 0] Cons.prems(3) by simp
  from update_one_second_order[OF u Cons.prems(2) this] Cons.IH[OF l len1 Cons.prems(3)]
  show ?case by simp
qed

text \<open>
  C5, as the code has it. The test before the second-order push reads the class-0 count of
  the raw accumulator, after the raw push of the delta at hand. A batch that leaves that
  count at 10000 or less leaves the second-order accumulator as it was, whatever the
  class-1 count is. For each retained delta, the raw accumulator is pushed first; if its
  class-0 count then exceeds 10000, the squared difference between the delta and the raw
  mean of the delta's class is pushed into the second-order accumulator with that class,
  and otherwise the second-order accumulator is left as it was.
\<close>

theorem second_order_gate:
  assumes "length (ttest_ctxs ctx) = DUDECT_TESTS h"
  shows "(\<forall>ctx'. update_statistics h ctx = Some ctx' \<and> n (ttest_ctxs ctx' ! 0) 0 \<le> 10000 \<longrightarrow>
            ttest_ctxs ctx' ! (1 + DUDECT_NUMBER_PERCENTILES h)
            = ttest_ctxs ctx ! (1 + DUDECT_NUMBER_PERCENTILES h)) \<and>
         (\<forall>i ctx'. update_one h ctx i = Some ctx' \<and> 0 \<le> exec_times ctx ! i \<longrightarrow>
            t_push (ttest_ctxs ctx ! 0) (real_of_int (exec_times ctx ! i)) (classes ctx ! i)
              = Some (ttest_ctxs ctx' ! 0) \<and>
            (if n (ttest_ctxs ctx' ! 0) 0 > 10000
             then t_push (ttest_ctxs ctx ! (1 + DUDECT_NUMBER_PERCENTILES h))
                    ((real_of_int (exec_times ctx ! i) - mean (ttest_ctxs ctx' ! 0) (classes ctx ! i)) *
                     (real_of_int (exec_times ctx ! i) - mean (ttest_ctxs ctx' ! 0) (classes ctx ! i)))
                    (classes ctx ! i)
                  = Some (ttest_ctxs ctx' ! (1 + DUDECT_NUMBER_PERCENTILES h))
             else ttest_ctxs ctx' ! (1 + DUDECT_NUMBER_PERCENTILES h)
                  = ttest_ctxs ctx ! (1 + DUDECT_NUMBER_PERCENTILES h)))"
proof (intro conjI allI impI)
  fix ctx'
  assume a: "update_statistics h ctx = Some ctx' \<and> n (ttest_ctxs ctx' ! 0) 0 \<le> 10000"
  then have "update_loop h [10..<number_measurements (config ctx) - 1] ctx = Some ctx'"
    by (auto simp: update_statistics_def Let_def split: if_splits)
  from update_loop_second_order[OF this assms] a
  show "ttest_ctxs ctx' ! (1 + DUDECT_NUMBER_PERCENTILES h)
            = ttest_ctxs ctx ! (1 + DUDECT_NUMBER_PERCENTILES h)" by blast
next
  fix i ctx'
  assume a: "update_one h ctx i = Some ctx' \<and> 0 \<le> exec_times ctx ! i"
  then have u: "update_one h ctx i = Some ctx'" and d: "0 \<le> exec_times ctx ! i" by blast+
  note ch = update_one_Some_char[OF u assms d]
  show "t_push (ttest_ctxs ctx ! 0) (real_of_int (exec_times ctx ! i)) (classes ctx ! i)
              = Some (ttest_ctxs ctx' ! 0)" using ch by blast
  show "if n (ttest_ctxs ctx' ! 0) 0 > 10000
             then t_push (ttest_ctxs ctx ! (1 + DUDECT_NUMBER_PERCENTILES h))
                    ((real_of_int (exec_times ctx ! i) - mean (ttest_ctxs ctx' ! 0) (classes ctx ! i)) *
                     (real_of_int (exec_times ctx ! i) - mean (ttest_ctxs ctx' ! 0) (classes ctx ! i)))
                    (classes ctx ! i)
                  = Some (ttest_ctxs ctx' ! (1 + DUDECT_NUMBER_PERCENTILES h))
             else ttest_ctxs ctx' ! (1 + DUDECT_NUMBER_PERCENTILES h)
                  = ttest_ctxs ctx ! (1 + DUDECT_NUMBER_PERCENTILES h)" using ch by blast
qed


lemma retained_on_const:
  assumes "\<forall>i \<in> set js. exec_times ctx ! i = d \<and> classes ctx ! i = c" and "0 \<le> d"
  shows "retained_on ctx js = replicate (length js) (d, c)"
proof -
  have "map (\<lambda>i. (exec_times ctx ! i, classes ctx ! i)) js = map (\<lambda>i. (d, c)) js"
    using assms(1) by (intro map_cong) auto
  then show ?thesis
    using assms(2) by (simp add: retained_on_def map_replicate_const filter_replicate)
qed

lemma t_push_all_count:
  "t_push_all t ps = Some t' \<Longrightarrow>
   n t' c = n t c + real (length (filter (\<lambda>p. snd p = c) ps))"
proof (induction ps arbitrary: t)
  case Nil
  then show ?case by simp
next
  case (Cons p ps)
  obtain x cls where p: "p = (x, cls)" by (cases p)
  from Cons.prems p obtain t1 where
    a: "t_push t x cls = Some t1" and b: "t_push_all t1 ps = Some t'"
    by (auto split: option.splits)
  from Cons.IH[OF b] t_push_count[OF a, of c] p show ?case by simp
qed

theorem second_order_gate_counterexample:
  "case update_statistics h_hundred ctx_ones of
     None \<Rightarrow> False
   | Some ctx' \<Rightarrow>
       n (ttest_ctxs ctx' ! 0) 1 = 10001 \<and> n (ttest_ctxs ctx' ! 0) 0 = 0 \<and>
       ttest_ctxs ctx' ! (1 + DUDECT_NUMBER_PERCENTILES h_hundred) = t_init"
proof -
  define js :: "nat list" where "js = [10..<10011]"
  have len: "length (ttest_ctxs ctx_ones) = DUDECT_TESTS h_hundred"
    by (simp add: ctx_ones_def h_hundred_def DUDECT_TESTS_def)
  have us: "update_statistics h_hundred ctx_ones = update_loop h_hundred js ctx_ones"
    unfolding js_def by (simp add: update_statistics_def ctx_ones_def Let_def del: upt_rec_numeral)
  have "\<forall>i \<in> set js. exec_times ctx_ones ! i = 1 \<and> classes ctx_ones ! i = 1"
    unfolding js_def by (simp add: ctx_ones_def del: upt_rec_numeral)
  then have r: "retained_on ctx_ones js = replicate (length js) (1, 1)"
    by (rule retained_on_const) simp
  have l: "length js = 10001" unfolding js_def length_upt by simp
  have v: "\<forall>(d, cls) \<in> set (retained_on ctx_ones js). cls \<le> 1"
    unfolding r by simp
  from update_loop_char[OF len v] obtain ctx' where
    u: "update_loop h_hundred js ctx_ones = Some ctx'"
    and p: "t_push_all (ttest_ctxs ctx_ones ! 0) (map as_double (retained_on ctx_ones js))
              = Some (ttest_ctxs ctx' ! 0)"
    by blast
  have m: "map as_double (retained_on ctx_ones js) = replicate 10001 (1, 1)"
    unfolding r l by (simp add: as_double_def)
  have i0: "n (ttest_ctxs ctx_ones ! 0) c = 0" for c by (simp add: ctx_ones_def t_init_def)
  have c1: "n (ttest_ctxs ctx' ! 0) 1 = 10001"
    using t_push_all_count[OF p, of 1] unfolding m by (simp add: i0 filter_replicate)
  have c0: "n (ttest_ctxs ctx' ! 0) 0 = 0"
    using t_push_all_count[OF p, of 0] unfolding m by (simp add: i0 filter_replicate)
  have "n (ttest_ctxs ctx' ! 0) 0 \<le> 10000" using c0 by simp
  from update_loop_second_order[OF u len this]
  have "ttest_ctxs ctx' ! (1 + DUDECT_NUMBER_PERCENTILES h_hundred)
        = ttest_ctxs ctx_ones ! (1 + DUDECT_NUMBER_PERCENTILES h_hundred)" .
  also have "\<dots> = t_init" by (simp add: ctx_ones_def h_hundred_def)
  finally have s: "ttest_ctxs ctx' ! (1 + DUDECT_NUMBER_PERCENTILES h_hundred) = t_init" .
  show ?thesis unfolding us u using c1 c0 s by simp
qed

theorem second_order_gate_witness:
  "(case update_statistics h_one (ctx_near 9999) of
      None \<Rightarrow> False
    | Some c \<Rightarrow> n (ttest_ctxs c ! 0) 0 = 10000 \<and> n (ttest_ctxs c ! 2) 0 = 0) \<and>
   (case update_one h_one (ctx_near 10000) 10 of
      None \<Rightarrow> False
    | Some c \<Rightarrow> n (ttest_ctxs c ! 0) 0 = 10001 \<and> n (ttest_ctxs c ! 2) 0 = 1)"
proof -
  have len: "length (ttest_ctxs (ctx_near k)) = DUDECT_TESTS h_one" for k
    by (simp add: ctx_near_def h_one_def DUDECT_TESTS_def)
  have s2: "ttest_ctxs (ctx_near k) ! 2 = t_init" for k
    by (simp add: ctx_near_def)
  have ix: "1 + DUDECT_NUMBER_PERCENTILES h_one = 2" by (simp add: h_one_def)
  have "case update_statistics h_one (ctx_near 9999) of
      None \<Rightarrow> False | Some c \<Rightarrow> n (ttest_ctxs c ! 0) 0 = 10000"
    by (simp add: ctx_near_def h_one_def update_statistics_def update_one_def t_push_def
        t_init_def Let_def upt_rec)
  then obtain c where a: "update_statistics h_one (ctx_near 9999) = Some c"
    and a0: "n (ttest_ctxs c ! 0) 0 = 10000"
    by (auto split: option.splits)
  have "ttest_ctxs c ! (1 + DUDECT_NUMBER_PERCENTILES h_one)
        = ttest_ctxs (ctx_near 9999) ! (1 + DUDECT_NUMBER_PERCENTILES h_one)"
    using second_order_gate[OF len, of 9999] a a0 by auto
  then have "ttest_ctxs c ! 2 = t_init" unfolding ix s2 .
  then have first: "n (ttest_ctxs c ! 0) 0 = 10000 \<and> n (ttest_ctxs c ! 2) 0 = 0"
    using a0 by (simp add: t_init_def)
  have "case update_one h_one (ctx_near 10000) 10 of
      None \<Rightarrow> False | Some c \<Rightarrow> n (ttest_ctxs c ! 0) 0 = 10001"
    by (simp add: ctx_near_def h_one_def update_one_def t_push_def t_init_def Let_def upt_rec)
  then obtain e where b: "update_one h_one (ctx_near 10000) 10 = Some e"
    and b0: "n (ttest_ctxs e ! 0) 0 = 10001"
    by (auto split: option.splits)
  have d: "0 \<le> exec_times (ctx_near 10000) ! 10" by (simp add: ctx_near_def)
  note g = second_order_gate[OF len, of 10000, THEN conjunct2, rule_format, of 10 e,
      OF conjI[OF b d], THEN conjunct2]
  have "\<exists>x. t_push (ttest_ctxs (ctx_near 10000) ! (1 + DUDECT_NUMBER_PERCENTILES h_one)) x
             (classes (ctx_near 10000) ! 10)
           = Some (ttest_ctxs e ! (1 + DUDECT_NUMBER_PERCENTILES h_one))"
    using g b0 by (auto split: if_splits)
  then obtain x where "t_push t_init x 0 = Some (ttest_ctxs e ! 2)"
    unfolding ix s2 by (auto simp: ctx_near_def)
  from t_push_count[OF this, of 0] have "n (ttest_ctxs e ! 2) 0 = 1" by (simp add: t_init_def)
  then have second: "n (ttest_ctxs e ! 0) 0 = 10001 \<and> n (ttest_ctxs e ! 2) 0 = 1"
    using b0 by simp
  show ?thesis using first second by (simp add: a b)
qed

subsection \<open>Thresholds\<close>

lemma prepare_percentiles_loop_other:
  assumes "prepare_percentiles_loop h js ctx = Some ctx'" and "k \<notin> set js"
  shows "percentiles ctx' ! k = percentiles ctx ! k"
  using assms
proof (induction js arbitrary: ctx)
  case Nil
  then show ?case by simp
next
  case (Cons i js)
  from Cons.prems(1) obtain a' v where
    l: "prepare_percentiles_loop h js (ctx\<lparr>exec_times := a', percentiles := (percentiles ctx)[i := v]\<rparr>)
          = Some ctx'"
    by (auto split: option.splits)
  from Cons.IH[OF l] Cons.prems(2) show ?case by simp
qed

lemma prepare_percentiles_loop_sorted:
  assumes "1 \<le> number_measurements (config ctx)"
    and "qsort (exec_times ctx) (number_measurements (config ctx)) cmp = exec_times ctx"
    and "prepare_percentiles_loop h js ctx = Some ctx'"
  shows "exec_times ctx' = exec_times ctx"
  using assms
proof (induction js arbitrary: ctx)
  case Nil
  then show ?case by simp
next
  case (Cons i js)
  let ?N = "number_measurements (config ctx)"
  let ?q = "1 - (1 / 2) powr (10 * real (i + 1) / real (DUDECT_NUMBER_PERCENTILES h))"
  let ?a = "qsort (exec_times ctx) ?N cmp"
  let ?ca = "ctx\<lparr>exec_times := ?a, percentiles := (percentiles ctx)[i := ?a ! nat \<lfloor>real ?N * ?q\<rfloor>]\<rparr>"
  have p: "percentile (exec_times ctx) ?q ?N = Some (?a, ?a ! nat \<lfloor>real ?N * ?q\<rfloor>)"
    using Cons.prems(1) by (intro percentile_Some) simp_all
  then have l: "prepare_percentiles_loop h js ?ca = Some ctx'" using Cons.prems(3) by simp
  have "exec_times ctx' = exec_times ?ca"
    using Cons.prems(1,2) by (intro Cons.IH[OF _ _ l]) simp_all
  then show ?case using Cons.prems(2) by simp
qed

lemma prepare_percentiles_loop_nth:
  assumes N: "1 \<le> number_measurements (config ctx)"
    and fp: "qsort (qsort (exec_times ctx) (number_measurements (config ctx)) cmp)
                (number_measurements (config ctx)) cmp
              = qsort (exec_times ctx) (number_measurements (config ctx)) cmp"
    and js: "distinct js" "j \<in> set js" and len: "j < length (percentiles ctx)"
  shows "\<exists>ctx'. prepare_percentiles_loop h js ctx = Some ctx' \<and>
           exec_times ctx' = qsort (exec_times ctx) (number_measurements (config ctx)) cmp \<and>
           percentiles ctx' ! j
             = qsort (exec_times ctx) (number_measurements (config ctx)) cmp !
                 nat \<lfloor>real (number_measurements (config ctx)) *
                        (1 - (1 / 2) powr (10 * real (j + 1) / real (DUDECT_NUMBER_PERCENTILES h)))\<rfloor>"
  using assms
proof (induction js arbitrary: ctx)
  case Nil
  then show ?case by simp
next
  case (Cons i js)
  let ?N = "number_measurements (config ctx)"
  let ?q = "\<lambda>k. 1 - (1 / 2) powr (10 * real (k + 1) / real (DUDECT_NUMBER_PERCENTILES h))"
  let ?a = "qsort (exec_times ctx) ?N cmp"
  let ?ca = "ctx\<lparr>exec_times := ?a, percentiles := (percentiles ctx)[i := ?a ! nat \<lfloor>real ?N * ?q i\<rfloor>]\<rparr>"
  have p: "percentile (exec_times ctx) (?q i) ?N = Some (?a, ?a ! nat \<lfloor>real ?N * ?q i\<rfloor>)"
    using Cons.prems(1) by (intro percentile_Some) simp_all
  have st: "prepare_percentiles_loop h (i # js) ctx = prepare_percentiles_loop h js ?ca"
    using p by simp
  have N1: "1 \<le> number_measurements (config ?ca)" using Cons.prems(1) by simp
  have a1: "qsort (exec_times ?ca) (number_measurements (config ?ca)) cmp = ?a"
    using Cons.prems(2) by simp
  show ?case
  proof (cases "j = i")
    case True
    from prepare_percentiles_loop_Some[OF N1, of h js] obtain ctx' where
      l: "prepare_percentiles_loop h js ?ca = Some ctx'" by blast
    have "i \<notin> set js" using Cons.prems(3) by simp
    from prepare_percentiles_loop_other[OF l this]
    have "percentiles ctx' ! i = ?a ! nat \<lfloor>real ?N * ?q i\<rfloor>"
      using Cons.prems(5) True by simp
    moreover have "exec_times ctx' = ?a"
      using prepare_percentiles_loop_sorted[OF N1 _ l] a1 by simp
    ultimately show ?thesis using l st True by simp
  next
    case False
    then have j: "j \<in> set js" using Cons.prems(4) by simp
    have d: "distinct js" using Cons.prems(3) by simp
    have f1: "qsort (qsort (exec_times ?ca) (number_measurements (config ?ca)) cmp)
                (number_measurements (config ?ca)) cmp
              = qsort (exec_times ?ca) (number_measurements (config ?ca)) cmp"
      unfolding a1 using Cons.prems(2) by simp
    have l1: "j < length (percentiles ?ca)" using Cons.prems(5) by simp
    from Cons.IH[OF N1 f1 d j l1] obtain ctx' where
      l: "prepare_percentiles_loop h js ?ca = Some ctx'"
      and x: "exec_times ctx' = qsort (exec_times ?ca) (number_measurements (config ?ca)) cmp"
      and v: "percentiles ctx' ! j
             = qsort (exec_times ?ca) (number_measurements (config ?ca)) cmp !
                 nat \<lfloor>real (number_measurements (config ?ca)) * ?q j\<rfloor>"
      by blast
    have "percentiles ctx' ! j = ?a ! nat \<lfloor>real ?N * ?q j\<rfloor>"
      using v unfolding a1 by simp
    moreover have "exec_times ctx' = ?a" using x unfolding a1 .
    ultimately show ?thesis using l st by simp
  qed
qed

lemma prepare_percentiles_nth:
  assumes N: "1 \<le> number_measurements (config ctx)"
    and fp: "qsort (qsort (exec_times ctx) (number_measurements (config ctx)) cmp)
                (number_measurements (config ctx)) cmp
              = qsort (exec_times ctx) (number_measurements (config ctx)) cmp"
    and j: "j < DUDECT_NUMBER_PERCENTILES h"
    and len: "length (percentiles ctx) = DUDECT_NUMBER_PERCENTILES h"
  shows "\<exists>ctx'. prepare_percentiles h ctx = Some ctx' \<and>
           length (percentiles ctx') = DUDECT_NUMBER_PERCENTILES h \<and>
           exec_times ctx' = qsort (exec_times ctx) (number_measurements (config ctx)) cmp \<and>
           percentiles ctx' ! j
             = qsort (exec_times ctx) (number_measurements (config ctx)) cmp !
                 nat \<lfloor>real (number_measurements (config ctx)) *
                        (1 - (1 / 2) powr (10 * real (j + 1) / real (DUDECT_NUMBER_PERCENTILES h)))\<rfloor>"
proof -
  have "distinct [0..<DUDECT_NUMBER_PERCENTILES h]" "j \<in> set [0..<DUDECT_NUMBER_PERCENTILES h]"
    "j < length (percentiles ctx)"
    using j len by simp_all
  from prepare_percentiles_loop_nth[OF N fp this, of h]
    prepare_percentiles_loop_Some[OF N, of h "[0..<DUDECT_NUMBER_PERCENTILES h]"] len
  show ?thesis unfolding prepare_percentiles_def by auto
qed


text \<open>
  C9 at a batch with one long delta. The comparator casts the difference of two
  \<open>int64_t\<close> to \<open>int\<close>, so it orders 4294967302 between 5 and 7, as it would order 6,
  and it does so consistently on the four entries of this buffer: the sorted buffer is
  0, 5, 4294967302, 7. With a hundred percentiles, threshold 9 is read at the quantile 1/2,
  position 2, and threshold 19 at the quantile 3/4, position 3: the thresholds that the
  first call stores are not in nondecreasing order.
\<close>

theorem thresholds_not_sorted_after_stall:
  "case dudect_main h_hundred (dudect_init h_hundred conf_four) lab_zero cyc_stall of
     None \<Rightarrow> False
   | Some (c, v) \<Rightarrow>
       exec_times c = [0, 5, 4294967302, 7] \<and>
       percentiles c ! 9 = 4294967302 \<and> percentiles c ! 19 = 7 \<and>
       \<not> sorted (percentiles c)"
proof -
  let ?i = "dudect_init h_hundred conf_four"
  let ?ca = "?i\<lparr>classes := map lab_zero [0..<number_measurements (config ?i)]\<rparr>"
  have "case measure cyc_stall ?ca of
          None \<Rightarrow> False
        | Some c \<Rightarrow> exec_times c = [5, 4294967302, 7, 0] \<and> number_measurements (config c) = 4 \<and>
            percentiles c = replicate 100 0"
    by (simp add: measure_def dudect_init_def h_hundred_def conf_four_def cyc_stall_def
        lab_zero_def Let_def int64_def eval_nat_numeral)
  then obtain c1 where m: "measure cyc_stall ?ca = Some c1"
    and e: "exec_times c1 = [5, 4294967302, 7, 0]" and N: "number_measurements (config c1) = 4"
    and p0: "percentiles c1 = replicate 100 0"
    by (auto split: option.splits)
  have s: "qsort (exec_times c1) (number_measurements (config c1)) cmp = [0, 5, 4294967302, 7]"
    unfolding e N by (simp add: qsort_def cmp_def int64_def int32_def)
  have fp: "qsort (qsort (exec_times c1) (number_measurements (config c1)) cmp)
              (number_measurements (config c1)) cmp
            = qsort (exec_times c1) (number_measurements (config c1)) cmp"
    unfolding s unfolding N by (simp add: qsort_def cmp_def int64_def int32_def)
  have N1: "1 \<le> number_measurements (config c1)" using N by simp
  have len: "length (percentiles c1) = DUDECT_NUMBER_PERCENTILES h_hundred"
    using p0 by (simp add: h_hundred_def)
  have j9: "9 < DUDECT_NUMBER_PERCENTILES h_hundred" and j19: "19 < DUDECT_NUMBER_PERCENTILES h_hundred"
    by (simp_all add: h_hundred_def)
  have q9: "nat \<lfloor>real (number_measurements (config c1)) *
              (1 - (1 / 2) powr (10 * real (9 + 1) / real (DUDECT_NUMBER_PERCENTILES h_hundred)))\<rfloor> = 2"
    unfolding N by (simp add: h_hundred_def)
  have q19: "nat \<lfloor>real (number_measurements (config c1)) *
              (1 - (1 / 2) powr (10 * real (19 + 1) / real (DUDECT_NUMBER_PERCENTILES h_hundred)))\<rfloor> = 3"
    unfolding N by (simp add: h_hundred_def powr_numeral power_divide)
  from prepare_percentiles_nth[OF N1 fp j9 len] obtain c2 where
    pp: "prepare_percentiles h_hundred c1 = Some c2"
    and l2: "length (percentiles c2) = DUDECT_NUMBER_PERCENTILES h_hundred"
    and x2: "exec_times c2 = [0, 5, 4294967302, 7]"
    and t9: "percentiles c2 ! 9 = 4294967302"
    unfolding q9 s by auto
  from prepare_percentiles_nth[OF N1 fp j19 len] pp have t19: "percentiles c2 ! 19 = 7"
    unfolding q19 s by auto
  have ns: "\<not> sorted (percentiles c2)"
  proof
    assume "sorted (percentiles c2)"
    then have "percentiles c2 ! 9 \<le> percentiles c2 ! 19"
      using l2 by (intro sorted_nth_mono) (simp_all add: h_hundred_def)
    then show False using t9 t19 by simp
  qed
  have z: "percentiles c1 ! (DUDECT_NUMBER_PERCENTILES h_hundred - 1) = 0"
    unfolding p0 by (simp add: h_hundred_def)
  have "dudect_main h_hundred ?i lab_zero cyc_stall = Some (c2, DUDECT_NOT_ENOUGHT_MEASUREMENTS)"
    using m z pp by (simp add: dudect_main_def Let_def h_hundred_def)
  then show ?thesis using t9 t19 ns x2 by simp
qed

subsection \<open>Long runs at the gate of 10000\<close>

lemma int64_id: "- (2 ^ 63) \<le> x \<Longrightarrow> x < 2 ^ 63 \<Longrightarrow> int64 x = x"
  by (simp add: int64_def signed_of_int signed_take_bit_int_eq_self)

lemma measure_ticks_nth:
  "k < length (ticks ctx) \<Longrightarrow>
   ticks (measure_ticks cyc js ctx) ! k = (if k \<in> set js then cyc k else ticks ctx ! k)"
proof (induction js arbitrary: ctx)
  case Nil
  then show ?case by simp
next
  case (Cons j js)
  let ?ca = "ctx\<lparr>ticks := (ticks ctx)[j := cyc j]\<rparr>"
  have "k < length (ticks ?ca)" using Cons.prems by simp
  from Cons.IH[OF this] Cons.prems show ?case by (auto simp: nth_list_update)
qed

lemma measure_times_nth:
  "k < length (exec_times ctx) \<Longrightarrow>
   exec_times (measure_times js ctx) ! k
     = (if k \<in> set js then int64 (ticks ctx ! (k + 1) - ticks ctx ! k) else exec_times ctx ! k)"
proof (induction js arbitrary: ctx)
  case Nil
  then show ?case by simp
next
  case (Cons j js)
  let ?ca = "ctx\<lparr>exec_times := (exec_times ctx)[j := int64 (ticks ctx ! (j + 1) - ticks ctx ! j)]\<rparr>"
  have "k < length (exec_times ?ca)" using Cons.prems by simp
  from Cons.IH[OF this] Cons.prems show ?case by (auto simp: nth_list_update)
qed

lemma measure_nth:
  assumes m: "measure cyc ctx = Some ctx'"
    and lt: "length (ticks ctx) = number_measurements (config ctx)"
    and le: "length (exec_times ctx) = number_measurements (config ctx)"
    and k: "k < number_measurements (config ctx) - 1"
  shows "exec_times ctx' ! k = int64 (cyc (k + 1) - cyc k)"
proof -
  let ?N = "number_measurements (config ctx)"
  let ?c = "measure_ticks cyc [0..<?N] ctx"
  have e: "ctx' = measure_times [0..<?N - 1] ?c"
    using m by (auto simp: measure_def Let_def split: if_splits)
  have t: "ticks ?c ! j = cyc j" if "j < ?N" for j
    using measure_ticks_nth[of j ctx cyc "[0..<?N]"] that lt by simp
  have "k < length (exec_times ?c)" using k le measure_ticks_frame[of cyc "[0..<?N]" ctx] by simp
  from measure_times_nth[OF this, of "[0..<?N - 1]"] k t[of k] t[of "k + 1"]
  show ?thesis unfolding e by simp
qed

lemma measure_last:
  assumes m: "measure cyc ctx = Some ctx'"
    and le: "length (exec_times ctx) = number_measurements (config ctx)"
  shows "exec_times ctx' ! (number_measurements (config ctx) - 1)
         = exec_times ctx ! (number_measurements (config ctx) - 1)"
proof -
  let ?N = "number_measurements (config ctx)"
  let ?c = "measure_ticks cyc [0..<?N] ctx"
  have e: "ctx' = measure_times [0..<?N - 1] ?c" and N: "?N \<noteq> 0"
    using m by (auto simp: measure_def Let_def split: if_splits)
  have "?N - 1 < length (exec_times ?c)" using N le measure_ticks_frame[of cyc "[0..<?N]" ctx] by simp
  from measure_times_nth[OF this, of "[0..<?N - 1]"] measure_ticks_frame[of cyc "[0..<?N]" ctx]
  show ?thesis unfolding e by simp
qed

lemma cmp_small:
  "cmp 1 0 = 1" "cmp 1 1 = 0" "cmp 0 1 = - 1"
  by (simp_all add: cmp_def int64_def int32_def)

lemma insert_one_ones: "qsort_insert cmp 1 (replicate k 1) = replicate (Suc k) 1"
  by (cases k) (simp_all add: cmp_small)

lemma insert_one_zero_ones: "qsort_insert cmp 1 (0 # replicate k 1) = 0 # replicate (Suc k) 1"
  by (simp add: cmp_small insert_one_ones)

lemma insert_zero_ones: "qsort_insert cmp 0 (replicate k 1) = 0 # replicate k 1"
  by (cases k) (simp_all add: cmp_small)

lemma sort_ones: "foldr (qsort_insert cmp) (replicate k 1) [] = replicate k 1"
  by (induction k) (simp_all add: insert_one_ones del: foldr_replicate)

lemma sort_ones_zero: "foldr (qsort_insert cmp) (replicate k 1 @ [0]) [] = 0 # replicate k 1"
proof (induction k)
  case 0
  show ?case by simp
next
  case (Suc k)
  have "foldr (qsort_insert cmp) (replicate (Suc k) 1 @ [0]) []
        = qsort_insert cmp 1 (foldr (qsort_insert cmp) (replicate k 1 @ [0]) [])"
    by (simp del: foldr_replicate)
  then show ?case unfolding Suc.IH insert_one_zero_ones .
qed

lemma sort_zero_ones: "foldr (qsort_insert cmp) (0 # replicate k 1) [] = 0 # replicate k 1"
  by (simp add: sort_ones insert_zero_ones del: foldr_replicate)

lemma qsort_ones_zero: "qsort (replicate k 1 @ [0]) (Suc k) cmp = 0 # replicate k 1"
  by (simp add: qsort_def sort_ones_zero del: foldr_replicate foldr_append)

lemma qsort_zero_ones: "qsort (0 # replicate k 1) (Suc k) cmp = 0 # replicate k 1"
  by (simp add: qsort_def sort_ones insert_zero_ones del: foldr_replicate)


lemma long_calibration:
  "\<exists>c1. dudect_main h_hundred (dudect_init h_hundred conf_long) lab cyc_unit
            = Some (c1, DUDECT_NOT_ENOUGHT_MEASUREMENTS) \<and>
         ttest_ctxs c1 = replicate 102 t_init \<and> percentiles c1 ! 99 = 1 \<and>
         number_measurements (config c1) = 10012 \<and>
         length (ticks c1) = 10012 \<and> length (exec_times c1) = 10012"
proof -
  let ?i = "dudect_init h_hundred conf_long"
  let ?ca = "?i\<lparr>classes := map lab [0..<number_measurements (config ?i)]\<rparr>"
  have N: "number_measurements (config ?ca) = 10012" by (simp add: dudect_init_def conf_long_def)
  then have "0 < number_measurements (config ?ca)" by simp
  from measure_Some[OF this] obtain cm where m: "measure cyc_unit ?ca = Some cm" by blast
  note f = measure_frame[OF m]
  have Nm: "number_measurements (config cm) = 10012" using f N by simp
  have lt: "length (ticks ?ca) = number_measurements (config ?ca)"
    and le: "length (exec_times ?ca) = number_measurements (config ?ca)"
    by (simp_all add: dudect_init_def conf_long_def)
  have lem: "length (exec_times cm) = 10012" using f le N by simp
  have ltm: "length (ticks cm) = 10012" using f lt N by simp
  have ones: "exec_times cm ! k = 1" if "k < 10011" for k
  proof -
    have "k < number_measurements (config ?ca) - 1" using that N by simp
    from measure_nth[OF m lt le this] show ?thesis
      by (simp add: cyc_unit_def int64_id)
  qed
  have last: "exec_times cm ! 10011 = 0"
    using measure_last[OF m le] N by (simp add: dudect_init_def conf_long_def)
  have buf: "exec_times cm = replicate 10011 1 @ [0]"
  proof (rule nth_equalityI)
    show "length (exec_times cm) = length (replicate 10011 (1::int) @ [0])" using lem by simp
  next
    fix k assume "k < length (exec_times cm)"
    then have "k < 10011 \<or> k = 10011" using lem by auto
    then show "exec_times cm ! k = (replicate 10011 1 @ [0]) ! k"
      using ones last by (auto simp: nth_append)
  qed
  have S: "(10012::nat) = Suc 10011" by simp
  have s: "qsort (exec_times cm) (number_measurements (config cm)) cmp = 0 # replicate 10011 1"
    unfolding buf Nm S by (rule qsort_ones_zero)
  have fp: "qsort (qsort (exec_times cm) (number_measurements (config cm)) cmp)
              (number_measurements (config cm)) cmp
            = qsort (exec_times cm) (number_measurements (config cm)) cmp"
    unfolding s unfolding Nm S by (rule qsort_zero_ones)
  have N1: "1 \<le> number_measurements (config cm)" using Nm by simp
  have p0: "percentiles cm = replicate 100 0" using f by (simp add: dudect_init_def h_hundred_def)
  have len: "length (percentiles cm) = DUDECT_NUMBER_PERCENTILES h_hundred"
    using p0 by (simp add: h_hundred_def)
  have j: "99 < DUDECT_NUMBER_PERCENTILES h_hundred" by (simp add: h_hundred_def)
  have q: "nat \<lfloor>real (number_measurements (config cm)) *
              (1 - (1 / 2) powr (10 * real (99 + 1) / real (DUDECT_NUMBER_PERCENTILES h_hundred)))\<rfloor>
           = 10002"
    unfolding Nm by (simp add: h_hundred_def powr_numeral power_divide)
  from prepare_percentiles_nth[OF N1 fp j len] obtain c1 where
    pp: "prepare_percentiles h_hundred cm = Some c1"
    and x: "exec_times c1 = 0 # replicate 10011 1"
    and t: "percentiles c1 ! 99 = (0 # replicate 10011 1) ! 10002"
    unfolding q s by auto
  have t1: "percentiles c1 ! 99 = 1" unfolding t by simp
  from prepare_percentiles_loop_Some[OF N1, of h_hundred "[0..<DUDECT_NUMBER_PERCENTILES h_hundred]"] pp
  have g: "ticks c1 = ticks cm" "ttest_ctxs c1 = ttest_ctxs cm" "config c1 = config cm"
    by (auto simp: prepare_percentiles_def)
  have z: "percentiles cm ! (DUDECT_NUMBER_PERCENTILES h_hundred - 1) = 0"
    unfolding p0 by (simp add: h_hundred_def)
  have d: "dudect_main h_hundred ?i lab cyc_unit = Some (c1, DUDECT_NOT_ENOUGHT_MEASUREMENTS)"
    using m z pp by (simp add: dudect_main_def Let_def h_hundred_def)
  have tt: "ttest_ctxs c1 = replicate 102 t_init"
    using g f by (simp add: dudect_init_def DUDECT_TESTS_def h_hundred_def)
  show ?thesis using d tt t1 g Nm ltm x by auto
qed


lemma upt_split: "a \<le> s \<Longrightarrow> s \<le> b \<Longrightarrow> [a..<b] = [a..<s] @ [s..<b]"
  using upt_add_eq_append[of a s "b - s"] by simp

lemma retained_on_append:
  "retained_on ctx (xs @ ys) = retained_on ctx xs @ retained_on ctx ys"
  by (simp add: retained_on_def)

lemma long_split_step:
  assumes t: "ttest_ctxs c1 = replicate 102 t_init" and p: "percentiles c1 ! 99 \<noteq> 0"
    and N: "number_measurements (config c1) = 10012"
    and lt: "length (ticks c1) = 10012" and le: "length (exec_times c1) = 10012"
    and s: "10 \<le> s" "s \<le> 10011"
  shows "\<exists>c2. dudect_main h_hundred c1 (lab_split_at s) (cyc_split s)
                 = Some (c2, report h_hundred c2) \<and>
           welford_inv (ttest_ctxs c2 ! 0) 0 (replicate (s - 10) 1) \<and>
           welford_inv (ttest_ctxs c2 ! 0) 1 (replicate (10011 - s) 2)"
proof -
  let ?ca = "c1\<lparr>classes := map (lab_split_at s) [0..<number_measurements (config c1)]\<rparr>"
  have "0 < number_measurements (config ?ca)" using N by simp
  from measure_Some[OF this] obtain cm where m: "measure (cyc_split s) ?ca = Some cm" by blast
  note f = measure_frame[OF m]
  have Nm: "number_measurements (config cm) = 10012" using f N by simp
  have tm: "ttest_ctxs cm = replicate 102 t_init" using f t by simp
  have pm: "percentiles cm ! 99 \<noteq> 0" using f p by simp
  have ex: "exec_times cm ! k = (if k < s then 1 else 2)" if "k < 10011" for k
  proof -
    have "k < number_measurements (config ?ca) - 1" using that N by simp
    from measure_nth[OF m _ _ this] lt le N
    have "exec_times cm ! k = int64 (cyc_split s (k + 1) - cyc_split s k)" by simp
    also have "cyc_split s (k + 1) - cyc_split s k = (if k < s then 1 else 2)"
      by (auto simp: cyc_split_def)
    finally show ?thesis by (simp add: int64_id)
  qed
  have cl: "classes cm ! k = (if k < s then 0 else 1)" if "k < 10012" for k
    using f that N by (simp add: lab_split_at_def)
  define js :: "nat list" where "js = [10..<10011]"
  have js: "js = [10..<s] @ [s..<10011]" unfolding js_def using s by (rule upt_split)
  have lo: "retained_on cm [10..<s] = replicate (length [10..<s]) (1, 0)"
    using ex cl s by (intro retained_on_const) auto
  have hi: "retained_on cm [s..<10011] = replicate (length [s..<10011]) (2, 1)"
    using ex cl s by (intro retained_on_const) auto
  have r: "retained_on cm js = replicate (s - 10) (1, 0) @ replicate (10011 - s) (2, 1)"
    unfolding js retained_on_append lo hi by simp
  have v: "\<forall>(d, cls) \<in> set (retained_on cm js). cls \<le> 1" unfolding r by auto
  have len: "length (ttest_ctxs cm) = DUDECT_TESTS h_hundred"
    using tm by (simp add: DUDECT_TESTS_def h_hundred_def)
  from update_loop_char[OF len v] obtain c2 where
    u: "update_loop h_hundred js cm = Some c2"
    and raw: "t_push_all (ttest_ctxs cm ! 0) (map as_double (retained_on cm js))
              = Some (ttest_ctxs c2 ! 0)"
    by blast
  let ?ps = "map as_double (retained_on cm js)"
  have t0: "ttest_ctxs cm ! 0 = t_init" unfolding tm by simp
  have vp: "\<forall>(x, c) \<in> set ?ps. c \<le> 1" unfolding r by (auto simp: as_double_def)
  have "\<forall>c. welford_inv t_init c ((\<lambda>c. []) c)" by (simp add: welford_inv_def t_init_def)
  from welford_inv_push_all[OF this vp] raw t0
  have w: "welford_inv (ttest_ctxs c2 ! 0) c (class_values ?ps c)" for c by auto
  have cv0: "class_values ?ps 0 = replicate (s - 10) 1"
    unfolding r by (simp add: class_values_def as_double_def filter_replicate)
  have cv1: "class_values ?ps 1 = replicate (10011 - s) 2"
    unfolding r by (simp add: class_values_def as_double_def filter_replicate)
  have us: "update_statistics h_hundred cm = Some c2"
    using u Nm unfolding js_def by (simp add: update_statistics_def Let_def del: upt_rec_numeral)
  have "percentiles cm ! (DUDECT_NUMBER_PERCENTILES h_hundred - 1) \<noteq> 0"
    using pm by (simp add: h_hundred_def)
  then have "dudect_main h_hundred c1 (lab_split_at s) (cyc_split s) = Some (c2, report h_hundred c2)"
    using m us by (simp add: dudect_main_def Let_def h_hundred_def)
  then show ?thesis using w[of 0] w[of 1] cv0 cv1 by auto
qed


lemma long_run:
  assumes "10 \<le> s" and "s \<le> 10011"
  shows "\<exists>c2. run h_hundred (dudect_init h_hundred conf_long)
                 [(lab_zero, cyc_unit), (lab_split_at s, cyc_split s)]
               = Some (c2, [DUDECT_NOT_ENOUGHT_MEASUREMENTS, report h_hundred c2]) \<and>
           reachable h_hundred c2 \<and>
           welford_inv (ttest_ctxs c2 ! 0) 0 (replicate (s - 10) 1) \<and>
           welford_inv (ttest_ctxs c2 ! 0) 1 (replicate (10011 - s) 2)"
proof -
  from long_calibration[of lab_zero] obtain c1 where
    d1: "dudect_main h_hundred (dudect_init h_hundred conf_long) lab_zero cyc_unit
           = Some (c1, DUDECT_NOT_ENOUGHT_MEASUREMENTS)"
    and t: "ttest_ctxs c1 = replicate 102 t_init" and p: "percentiles c1 ! 99 = 1"
    and N: "number_measurements (config c1) = 10012"
    and l: "length (ticks c1) = 10012" "length (exec_times c1) = 10012"
    by blast
  have p0: "percentiles c1 ! 99 \<noteq> 0" using p by simp
  from long_split_step[OF t p0 N l assms] obtain c2 where
    d2: "dudect_main h_hundred c1 (lab_split_at s) (cyc_split s) = Some (c2, report h_hundred c2)"
    and w: "welford_inv (ttest_ctxs c2 ! 0) 0 (replicate (s - 10) 1)"
      "welford_inv (ttest_ctxs c2 ! 0) 1 (replicate (10011 - s) 2)"
    by blast
  have "reachable h_hundred c2"
    using reachable.step[OF reachable.step[OF reachable.init d1] d2] .
  then show ?thesis using d1 d2 w by simp
qed

lemma welford_inv_constant:
  assumes "welford_inv t c (replicate k x)"
  shows "n t c = real k" and "0 < k \<Longrightarrow> mean t c = x" and "m2 t c = 0"
proof -
  have q: "(\<Sum>y\<leftarrow>replicate k x. y * y) = real k * (x * x)"
    by (simp add: map_replicate_const sum_list_replicate)
  show "n t c = real k" using assms by (simp add: welford_inv_def)
  show "mean t c = x" if "0 < k"
    using assms that by (simp add: welford_inv_def sum_list_replicate)
  show "m2 t c = 0"
  proof (cases "k = 0")
    case True
    then show ?thesis using assms by (simp add: welford_inv_def)
  next
    case False
    then show ?thesis using assms q by (simp add: welford_inv_def sum_list_replicate)
  qed
qed

lemma t_zero_variance:
  assumes "m2 t 0 = 0" and "m2 t 1 = 0" and "1 < n t 0" and "1 < n t 1"
    and "mean t 0 \<noteq> mean t 1"
  shows "fabs (t_compute t) = PInf"
  using assms by (simp add: t_compute_def Let_def)

lemma no_gate_when_raw_below:
  assumes "reachable h ctx" and "n (ttest_ctxs ctx ! 0) 0 \<le> real (DUDECT_ENOUGH_MEASUREMENTS h)"
  shows "list_all (\<lambda>t. n t 0 \<le> real (DUDECT_ENOUGH_MEASUREMENTS h)) (ttest_ctxs ctx)"
    and "max_test_index h ctx = 0"
proof -
  have a: "allocated h ctx" and ok: "counts_ok h ctx" using reachable_ok[OF assms(1)] by blast+
  have le: "n (ttest_ctxs ctx ! i) 0 \<le> real (DUDECT_ENOUGH_MEASUREMENTS h)"
    if "i < DUDECT_TESTS h" for i
    using ok that assms(2) unfolding counts_ok_def by (meson order_trans)
  show "list_all (\<lambda>t. n t 0 \<le> real (DUDECT_ENOUGH_MEASUREMENTS h)) (ttest_ctxs ctx)"
    using le a by (simp add: list_all_length allocated_def)
  have "\<not> meets_gate h ctx i" if "i < DUDECT_TESTS h" for i
    using le[OF that] by (simp add: meets_gate_def)
  then have "\<forall>i < DUDECT_TESTS h. \<not> meets_gate h ctx i" by blast
  then show "max_test_index h ctx = 0" by (rule no_gate_raw)
qed


lemma long_run_verdict_without_gate:
  assumes s: "12 \<le> s" "s \<le> 10009"
  shows "\<exists>c2. run h_hundred (dudect_init h_hundred conf_long)
                 [(lab_zero, cyc_unit), (lab_split_at s, cyc_split s)]
               = Some (c2, [DUDECT_NOT_ENOUGHT_MEASUREMENTS, DUDECT_LEAKAGE_FOUND]) \<and>
           list_all (\<lambda>t. n t 0 \<le> 10000) (ttest_ctxs c2) \<and>
           n (ttest_ctxs c2 ! 0) 0 = real (s - 10) \<and> n (ttest_ctxs c2 ! 0) 1 = real (10011 - s)"
proof -
  have "10 \<le> s" "s \<le> 10011" using s by simp_all
  from long_run[OF this] obtain c2 where
    r: "run h_hundred (dudect_init h_hundred conf_long)
          [(lab_zero, cyc_unit), (lab_split_at s, cyc_split s)]
        = Some (c2, [DUDECT_NOT_ENOUGHT_MEASUREMENTS, report h_hundred c2])"
    and re: "reachable h_hundred c2"
    and w0: "welford_inv (ttest_ctxs c2 ! 0) 0 (replicate (s - 10) 1)"
    and w1: "welford_inv (ttest_ctxs c2 ! 0) 1 (replicate (10011 - s) 2)"
    by blast
  let ?raw = "ttest_ctxs c2 ! 0"
  have n0: "n ?raw 0 = real (s - 10)" and m0: "mean ?raw 0 = 1" and q0: "m2 ?raw 0 = 0"
    using welford_inv_constant[OF w0] s by simp_all
  have n1: "n ?raw 1 = real (10011 - s)" and m1: "mean ?raw 1 = 2" and q1: "m2 ?raw 1 = 0"
    using welford_inv_constant[OF w1] s by simp_all
  have E: "real (DUDECT_ENOUGH_MEASUREMENTS h_hundred) = 10000" by (simp add: h_hundred_def)
  have below: "n ?raw 0 \<le> real (DUDECT_ENOUGH_MEASUREMENTS h_hundred)"
    unfolding n0 E using s by simp
  note g = no_gate_when_raw_below[OF re below]
  have mt: "max_test h_hundred c2 = ?raw" using g(2) by (simp add: max_test_def)
  have "fabs (t_compute ?raw) = PInf"
    using q0 q1 n0 n1 m0 m1 s by (intro t_zero_variance) simp_all
  then have a: "abs_t c2 (max_test_index h_hundred c2) = PInf" using g(2) by (simp add: abs_t_def)
  have "real (DUDECT_ENOUGH_MEASUREMENTS h_hundred) \<le> n (max_test h_hundred c2) 0 + n (max_test h_hundred c2) 1"
    unfolding mt n0 n1 E using s by simp
  from report_enough[OF this] have "report h_hundred c2 = DUDECT_LEAKAGE_FOUND"
    unfolding a by simp
  then show ?thesis using r g(1) n0 n1 E by simp
qed

theorem no_gate_verdict_by_raw_total_counterexample:
  "case run h_hundred (dudect_init h_hundred conf_long)
          [(lab_zero, cyc_unit), (lab_split_at 5010, cyc_split 5010)] of
     None \<Rightarrow> False
   | Some (ctx, vs) \<Rightarrow>
       list_all (\<lambda>t. n t 0 \<le> 10000) (ttest_ctxs ctx) \<and>
       n (ttest_ctxs ctx ! 0) 0 = 5000 \<and> n (ttest_ctxs ctx ! 0) 1 = 5001 \<and>
       real (DUDECT_ENOUGH_MEASUREMENTS h_hundred) = 10000 \<and>
       vs = [DUDECT_NOT_ENOUGHT_MEASUREMENTS, DUDECT_LEAKAGE_FOUND]"
proof -
  have "(12::nat) \<le> 5010" "(5010::nat) \<le> 10009" by simp_all
  from long_run_verdict_without_gate[OF this] show ?thesis
    by (auto simp: h_hundred_def)
qed

theorem gate_boundary_on_total_counterexample:
  "case run h_hundred (dudect_init h_hundred conf_long)
          [(lab_zero, cyc_unit), (lab_split_at 10009, cyc_split 10009)] of
     None \<Rightarrow> False
   | Some (ctx, vs) \<Rightarrow>
       list_all (\<lambda>t. n t 0 \<le> 10000) (ttest_ctxs ctx) \<and>
       n (ttest_ctxs ctx ! 0) 0 = 9999 \<and> n (ttest_ctxs ctx ! 0) 1 = 2 \<and>
       real (DUDECT_ENOUGH_MEASUREMENTS h_hundred) - 1 = 9999 \<and>
       vs = [DUDECT_NOT_ENOUGHT_MEASUREMENTS, DUDECT_LEAKAGE_FOUND]"
proof -
  have "(12::nat) \<le> 10009" "(10009::nat) \<le> 10009" by simp_all
  from long_run_verdict_without_gate[OF this] show ?thesis
    by (auto simp: h_hundred_def)
qed

theorem few_values_give_nan_counterexample:
  "case run h_hundred (dudect_init h_hundred conf_long)
          [(lab_zero, cyc_unit), (lab_split_at 10011, cyc_split 10011)] of
     None \<Rightarrow> False
   | Some (ctx, vs) \<Rightarrow>
       meets_gate h_hundred ctx 0 \<and> max_test_index h_hundred ctx = 0 \<and>
       n (max_test h_hundred ctx) 0 = 10001 \<and> n (max_test h_hundred ctx) 1 = 0 \<and>
       t_compute (max_test h_hundred ctx) = NaN \<and>
       vs = [DUDECT_NOT_ENOUGHT_MEASUREMENTS, DUDECT_NO_LEAKAGE_EVIDENCE_YET]"
proof -
  have "(10::nat) \<le> 10011" "(10011::nat) \<le> 10011" by simp_all
  from long_run[OF this] obtain c2 where
    r: "run h_hundred (dudect_init h_hundred conf_long)
          [(lab_zero, cyc_unit), (lab_split_at 10011, cyc_split 10011)]
        = Some (c2, [DUDECT_NOT_ENOUGHT_MEASUREMENTS, report h_hundred c2])"
    and re: "reachable h_hundred c2"
    and w0: "welford_inv (ttest_ctxs c2 ! 0) 0 (replicate (10011 - 10) 1)"
    and w1: "welford_inv (ttest_ctxs c2 ! 0) 1 (replicate (10011 - 10011) 2)"
    by blast
  let ?raw = "ttest_ctxs c2 ! 0"
  have n0: "n ?raw 0 = 10001" using welford_inv_constant(1)[OF w0] by simp
  have n1: "n ?raw 1 = 0" using welford_inv_constant(1)[OF w1] by simp
  have ok: "counts_ok h_hundred c2" using reachable_ok[OF re] by blast
  have nan: "abs_t c2 i = NaN" if "i < DUDECT_TESTS h_hundred" for i
  proof -
    have "n (ttest_ctxs c2 ! i) 1 \<le> 1"
      using ok that n1 unfolding counts_ok_def by (metis order_trans zero_le_one)
    moreover have "pushed (ttest_ctxs c2 ! i)" using reachable_pushed[OF re] that by blast
    ultimately show ?thesis using t_compute_few by (simp add: abs_t_def)
  qed
  have ix: "max_test_index h_hundred c2 = 0"
    using max_test_index_cases[of h_hundred c2] nan by auto
  have mt: "max_test h_hundred c2 = ?raw" using ix by (simp add: max_test_def)
  have T: "0 < DUDECT_TESTS h_hundred" by (simp add: DUDECT_TESTS_def)
  have tn: "t_compute ?raw = NaN"
    using reachable_pushed[OF re] T n1 by (intro t_compute_few) auto
  have g: "meets_gate h_hundred c2 0" using n0 by (simp add: meets_gate_def h_hundred_def)
  have "report h_hundred c2 = DUDECT_NO_LEAKAGE_EVIDENCE_YET"
    unfolding report_def Let_def mt tn n0 n1 by (simp add: h_hundred_def)
  then show ?thesis using r g ix mt tn n0 n1 by simp
qed

subsection \<open>A calibration that does not leave the first phase\<close>

lemma insert_zero_zeros: "qsort_insert cmp 0 (replicate k 0) = replicate (Suc k) 0"
  by (cases k) (simp_all add: cmp_def int64_def int32_def)

lemma sort_zeros: "foldr (qsort_insert cmp) (replicate k 0) [] = replicate k 0"
  by (induction k) (simp_all add: insert_zero_zeros del: foldr_replicate)

lemma qsort_zeros: "qsort (replicate k 0) k cmp = replicate k 0"
  by (simp add: qsort_def sort_zeros del: foldr_replicate)

lemma constant_calibration:
  assumes z: "percentiles ctx ! 99 = 0" and lp: "length (percentiles ctx) = 100"
    and N: "number_measurements (config ctx) = 10012"
    and lt: "length (ticks ctx) = 10012" and le: "length (exec_times ctx) = 10012"
    and last: "exec_times ctx ! 10011 = 0"
    and d: "\<forall>k < 10011. int64 (cyc (k + 1) - cyc k) = d"
    and s1: "qsort (replicate 10011 d @ [0]) 10012 cmp = a"
    and s2: "qsort a 10012 cmp = a"
  shows "\<exists>c1. dudect_main h_hundred ctx lab cyc = Some (c1, DUDECT_NOT_ENOUGHT_MEASUREMENTS) \<and>
           ttest_ctxs c1 = ttest_ctxs ctx \<and> exec_times c1 = a \<and>
           length (percentiles c1) = 100 \<and>
           (\<forall>j < 100. percentiles c1 ! j
               = a ! nat \<lfloor>10012 * (1 - (1 / 2) powr (10 * real (j + 1) / 100))\<rfloor>) \<and>
           number_measurements (config c1) = 10012 \<and> length (ticks c1) = 10012"
proof -
  let ?ca = "ctx\<lparr>classes := map lab [0..<number_measurements (config ctx)]\<rparr>"
  have "0 < number_measurements (config ?ca)" using N by simp
  from measure_Some[OF this] obtain cm where m: "measure cyc ?ca = Some cm" by blast
  note f = measure_frame[OF m]
  have Nm: "number_measurements (config cm) = 10012" using f N by simp
  have lem: "length (exec_times cm) = 10012" using f le by simp
  have ltm: "length (ticks cm) = 10012" using f lt by simp
  have ds: "exec_times cm ! k = d" if "k < 10011" for k
  proof -
    have "k < number_measurements (config ?ca) - 1" using that N by simp
    from measure_nth[OF m _ _ this] lt le N d that show ?thesis by simp
  qed
  have l0: "exec_times cm ! 10011 = 0"
    using measure_last[OF m] le N last by simp
  have buf: "exec_times cm = replicate 10011 d @ [0]"
  proof (rule nth_equalityI)
    show "length (exec_times cm) = length (replicate 10011 d @ [0])" using lem by simp
  next
    fix k assume "k < length (exec_times cm)"
    then have "k < 10011 \<or> k = 10011" using lem by auto
    then show "exec_times cm ! k = (replicate 10011 d @ [0]) ! k"
      using ds l0 by (auto simp: nth_append)
  qed
  have s: "qsort (exec_times cm) (number_measurements (config cm)) cmp = a"
    unfolding buf Nm by (rule s1)
  have fp: "qsort (qsort (exec_times cm) (number_measurements (config cm)) cmp)
              (number_measurements (config cm)) cmp
            = qsort (exec_times cm) (number_measurements (config cm)) cmp"
    unfolding s unfolding Nm by (rule s2)
  have N1: "1 \<le> number_measurements (config cm)" using Nm by simp
  have len: "length (percentiles cm) = DUDECT_NUMBER_PERCENTILES h_hundred"
    using f lp by (simp add: h_hundred_def)
  from prepare_percentiles_loop_Some[OF N1, of h_hundred "[0..<DUDECT_NUMBER_PERCENTILES h_hundred]"]
  obtain c1 where pp: "prepare_percentiles h_hundred cm = Some c1"
    and g: "ticks c1 = ticks cm" "ttest_ctxs c1 = ttest_ctxs cm" "config c1 = config cm"
      "length (percentiles c1) = length (percentiles cm)"
    unfolding prepare_percentiles_def by blast
  have nth: "percentiles c1 ! j = a ! nat \<lfloor>10012 * (1 - (1 / 2) powr (10 * real (j + 1) / 100))\<rfloor>"
    and ex: "exec_times c1 = a"
    if "j < 100" for j
  proof -
    have j: "j < DUDECT_NUMBER_PERCENTILES h_hundred" using that by (simp add: h_hundred_def)
    from prepare_percentiles_nth[OF N1 fp j len] pp
    show "percentiles c1 ! j = a ! nat \<lfloor>10012 * (1 - (1 / 2) powr (10 * real (j + 1) / 100))\<rfloor>"
      and "exec_times c1 = a"
      using s unfolding Nm by (auto simp: h_hundred_def)
  qed
  have zm: "percentiles cm ! (DUDECT_NUMBER_PERCENTILES h_hundred - 1) = 0"
    using f z by (simp add: h_hundred_def)
  have "dudect_main h_hundred ctx lab cyc = Some (c1, DUDECT_NOT_ENOUGHT_MEASUREMENTS)"
    using m zm pp by (simp add: dudect_main_def Let_def h_hundred_def)
  then show ?thesis using g f nth ex[of 0] Nm ltm len by (auto simp: h_hundred_def)
qed

theorem first_call_calibrates_then_frozen_counterexample:
  "case run h_hundred (dudect_init h_hundred conf_long) [(lab_zero, cyc_flat)] of
     None \<Rightarrow> False
   | Some (c1, vs1) \<Rightarrow>
       (case run h_hundred c1 [(lab_zero, cyc_unit)] of
          None \<Rightarrow> False
        | Some (c2, vs2) \<Rightarrow>
            vs1 = [DUDECT_NOT_ENOUGHT_MEASUREMENTS] \<and> percentiles c1 = replicate 100 0 \<and>
            vs2 = [DUDECT_NOT_ENOUGHT_MEASUREMENTS] \<and> percentiles c2 ! 99 = 1)"
proof -
  let ?i = "dudect_init h_hundred conf_long"
  have S: "(10012::nat) = Suc 10011" by simp
  have z0: "replicate 10011 (0::int) @ [0] = replicate 10012 0"
    by (simp only: S replicate_append_same replicate_Suc)
  have i: "percentiles ?i ! 99 = 0" "length (percentiles ?i) = 100"
    "number_measurements (config ?i) = 10012" "length (ticks ?i) = 10012"
    "length (exec_times ?i) = 10012" "exec_times ?i ! 10011 = 0"
    by (simp_all add: dudect_init_def h_hundred_def conf_long_def)
  have d0: "\<forall>k < 10011. int64 (cyc_flat (k + 1) - cyc_flat k) = 0"
    by (simp add: cyc_flat_def int64_id)
  have a1: "qsort (replicate 10011 0 @ [0]) 10012 cmp = replicate 10012 0"
    unfolding z0 by (rule qsort_zeros)
  have a2: "qsort (replicate 10012 0) 10012 cmp = replicate 10012 0" by (rule qsort_zeros)
  from constant_calibration[OF i d0 a1 a2, of lab_zero] obtain c1 where
    s1: "dudect_main h_hundred ?i lab_zero cyc_flat = Some (c1, DUDECT_NOT_ENOUGHT_MEASUREMENTS)"
    and x1: "exec_times c1 = replicate 10012 0" and l1: "length (percentiles c1) = 100"
    and p1: "\<forall>j < 100. percentiles c1 ! j
               = replicate 10012 0 ! nat \<lfloor>10012 * (1 - (1 / 2) powr (10 * real (j + 1) / 100))\<rfloor>"
    and n1: "number_measurements (config c1) = 10012" "length (ticks c1) = 10012"
    by blast
  have pz: "percentiles c1 ! j = 0" if "j < 100" for j
  proof -
    have "nat \<lfloor>real 10012 * (1 - (1 / 2) powr (10 * real (j + 1) / 100))\<rfloor> < 10012"
      by (rule position_lt) simp_all
    then show ?thesis using p1 that by simp
  qed
  have all: "percentiles c1 = replicate 100 0"
    using l1 pz by (intro nth_equalityI) simp_all
  have c: "percentiles c1 ! 99 = 0" "length (percentiles c1) = 100"
    "number_measurements (config c1) = 10012" "length (ticks c1) = 10012"
    "length (exec_times c1) = 10012" "exec_times c1 ! 10011 = 0"
    using pz n1 l1 x1 by simp_all
  have d1: "\<forall>k < 10011. int64 (cyc_unit (k + 1) - cyc_unit k) = 1"
    by (simp add: cyc_unit_def int64_id)
  have b1: "qsort (replicate 10011 1 @ [0]) 10012 cmp = 0 # replicate 10011 1"
    unfolding S by (rule qsort_ones_zero)
  have b2: "qsort (0 # replicate 10011 1) 10012 cmp = 0 # replicate 10011 1"
    unfolding S by (rule qsort_zero_ones)
  from constant_calibration[OF c d1 b1 b2, of lab_zero] obtain c2 where
    s2: "dudect_main h_hundred c1 lab_zero cyc_unit = Some (c2, DUDECT_NOT_ENOUGHT_MEASUREMENTS)"
    and p2: "\<forall>j < 100. percentiles c2 ! j
               = (0 # replicate 10011 1) ! nat \<lfloor>10012 * (1 - (1 / 2) powr (10 * real (j + 1) / 100))\<rfloor>"
    by blast
  have "percentiles c2 ! 99 = (0 # replicate 10011 1) ! 10002"
    using p2[THEN spec, of 99] by (simp add: powr_numeral power_divide)
  then have t: "percentiles c2 ! 99 = 1" by simp
  show ?thesis using s1 s2 all t by simp
qed

subsection \<open>Thresholds when the comparator sees the true order\<close>

lemma int32_id: "- (2 ^ 31) \<le> x \<Longrightarrow> x < 2 ^ 31 \<Longrightarrow> int32 x = x"
  by (simp add: int32_def signed_of_int signed_take_bit_int_eq_self)

lemma cmp_close:
  assumes "\<bar>a - b\<bar> < 2 ^ 31"
  shows "cmp a b = a - b"
proof -
  have "int64 (a - b) = a - b" using assms by (intro int64_id) simp_all
  moreover have "int32 (a - b) = a - b" using assms by (intro int32_id) simp_all
  ultimately show ?thesis by (simp add: cmp_def)
qed

lemma qsort_insert_insort:
  assumes "\<forall>y\<in>set ys. \<bar>x - y\<bar> < 2 ^ 31"
  shows "qsort_insert cmp x ys = insort x ys"
  using assms by (induction ys) (simp_all add: cmp_close)

lemma qsort_close_sort:
  assumes "\<forall>x\<in>set xs. \<forall>y\<in>set xs. \<bar>x - y\<bar> < 2 ^ 31"
  shows "foldr (qsort_insert cmp) xs [] = sort xs"
  using assms
proof (induction xs)
  case Nil
  then show ?case by simp
next
  case (Cons x xs)
  have "foldr (qsort_insert cmp) xs [] = sort xs" using Cons.prems by (intro Cons.IH) simp
  moreover have "qsort_insert cmp x (sort xs) = insort x (sort xs)"
    using Cons.prems by (intro qsort_insert_insort) simp
  ultimately show ?case by (simp add: sort_key_def)
qed

lemma qsort_close:
  assumes "\<forall>x\<in>set a. \<forall>y\<in>set a. \<bar>x - y\<bar> < 2 ^ 31" and "length a = sz"
  shows "qsort a sz cmp = sort a"
  using qsort_close_sort[OF assms(1)] assms(2) by (simp add: qsort_def)

lemma position_mono:
  assumes "j \<le> k"
  shows "nat \<lfloor>real N * (1 - (1 / 2) powr (10 * real (j + 1) / real P))\<rfloor>
       \<le> nat \<lfloor>real N * (1 - (1 / 2) powr (10 * real (k + 1) / real P))\<rfloor>"
proof -
  have "10 * real (j + 1) / real P \<le> 10 * real (k + 1) / real P"
    using assms by (simp add: divide_right_mono)
  then have "(1 / 2 :: real) powr (10 * real (k + 1) / real P) \<le> (1 / 2) powr (10 * real (j + 1) / real P)"
    by (intro powr_mono') simp_all
  then have "real N * (1 - (1 / 2) powr (10 * real (j + 1) / real P))
           \<le> real N * (1 - (1 / 2) powr (10 * real (k + 1) / real P))"
    by (intro mult_left_mono) simp_all
  then show ?thesis by (intro nat_mono floor_mono)
qed

text \<open>
  The ordering of the thresholds when the comparator sees the true order: if any two
  deltas of the buffer differ by less than \<open>2 ^ 31\<close>, the difference survives the cast to
  \<open>int\<close>, the buffer is sorted and the thresholds, read at nondecreasing positions, are in
  nondecreasing order.
\<close>

lemma thresholds_sorted_when_close:
  assumes N: "1 \<le> number_measurements (config ctx)"
    and lx: "length (exec_times ctx) = number_measurements (config ctx)"
    and lp: "length (percentiles ctx) = DUDECT_NUMBER_PERCENTILES h"
    and close: "\<forall>x\<in>set (exec_times ctx). \<forall>y\<in>set (exec_times ctx). \<bar>x - y\<bar> < 2 ^ 31"
  shows "\<exists>ctx'. prepare_percentiles h ctx = Some ctx' \<and> sorted (percentiles ctx')"
proof (cases "DUDECT_NUMBER_PERCENTILES h = 0")
  case True
  then show ?thesis using lp by (simp add: prepare_percentiles_def)
next
  case False
  let ?N = "number_measurements (config ctx)"
  let ?P = "DUDECT_NUMBER_PERCENTILES h"
  let ?pos = "\<lambda>j. nat \<lfloor>real ?N * (1 - (1 / 2) powr (10 * real (j + 1) / real ?P))\<rfloor>"
  have s: "qsort (exec_times ctx) ?N cmp = sort (exec_times ctx)"
    using close lx by (rule qsort_close)
  have s2: "qsort (sort (exec_times ctx)) ?N cmp = sort (sort (exec_times ctx))"
    using close lx by (intro qsort_close) simp_all
  have fp: "qsort (qsort (exec_times ctx) ?N cmp) ?N cmp = qsort (exec_times ctx) ?N cmp"
    unfolding s s2 by (simp add: sorted_sort_id)
  from prepare_percentiles_loop_Some[OF N, of h "[0..<?P]"] obtain ctx' where
    pp: "prepare_percentiles h ctx = Some ctx'"
    unfolding prepare_percentiles_def by blast
  have nth: "percentiles ctx' ! j = sort (exec_times ctx) ! ?pos j" if "j < ?P" for j
    using prepare_percentiles_nth[OF N fp that lp] pp unfolding s by auto
  have "0 < ?P" using False by simp
  from prepare_percentiles_nth[OF N fp this lp] pp
  have len: "length (percentiles ctx') = ?P" by auto
  have "percentiles ctx' ! j \<le> percentiles ctx' ! k" if jk: "j \<le> k" and k: "k < ?P" for j k
  proof -
    have "(1 - (1 / 2) powr (10 * real (k + 1) / real ?P) :: real) < 1" by simp
    from position_lt[OF N this] have "?pos k < ?N" .
    then have "sort (exec_times ctx) ! ?pos j \<le> sort (exec_times ctx) ! ?pos k"
      using position_mono[OF jk, of ?N ?P] lx by (intro sorted_nth_mono) simp_all
    then show ?thesis using nth[of j] nth[of k] jk k by simp
  qed
  then have "sorted (percentiles ctx')" unfolding sorted_iff_nth_mono len by blast
  then show ?thesis using pp by simp
qed

end
